theory Spec2Isabelle
  imports Main "HOL-Library.Multiset"
begin

section \<open>Schema (shared/schema.ts)\<close>

text \<open>
  The two tables of the schema, as the row types \<open>$inferSelect\<close> gives them.
  Text columns are strings (byte lists here, so the development speaks about ASCII
  text), \<open>status\<close> is a free \<open>text\<close> column (the five workflow values appear only
  in a comment of the schema), \<open>attachments\<close> is a nullable text array (\<open>None\<close> is
  SQL/JS \<open>null\<close>), and a timestamp is the number of milliseconds that its
  \<open>Date\<close> stands for (see \<open>getTime\<close> for the dates that are invalid).
\<close>

record ServiceRequest =
  sr_id :: string
  sr_productName :: string
  sr_serialNumber :: string
  sr_customerName :: string
  sr_customerContact :: string
  sr_issueDescription :: string
  sr_status :: string
  sr_attachments :: "string list option"
  sr_createdAt :: int
  sr_updatedAt :: int

text \<open>The \<open>comments\<close> table has exactly four columns.\<close>

record Comment =
  c_id :: string
  c_serviceRequestId :: string
  c_text :: string
  c_createdAt :: int

text \<open>
  \<open>InsertServiceRequest\<close>: the insert schema without \<open>id\<close>, \<open>createdAt\<close> and
  \<open>updatedAt\<close>. Columns with a default are optional (\<open>None\<close> is an absent key);
  the nullable \<open>attachments\<close> may also be present with the value \<open>null\<close>
  (\<open>Some None\<close>).
\<close>

record InsertServiceRequest =
  ins_productName :: string
  ins_serialNumber :: string
  ins_customerName :: string
  ins_customerContact :: string
  ins_issueDescription :: string
  ins_status :: "string option"
  ins_attachments :: "string list option option"

record InsertComment =
  ic_serviceRequestId :: string
  ic_text :: string

text \<open>
  \<open>Partial<ServiceRequest>\<close>, the type of the \<open>updates\<close> argument: every column of
  the row, each one optional. \<open>None\<close> is an absent key, \<open>Some v\<close> a key present
  with the value \<open>v\<close>. (A key present with the value \<open>undefined\<close> cannot arrive in a
  JSON body and is not modelled.)
\<close>

record ServiceRequestUpdates =
  upd_id :: "string option"
  upd_productName :: "string option"
  upd_serialNumber :: "string option"
  upd_customerName :: "string option"
  upd_customerContact :: "string option"
  upd_issueDescription :: "string option"
  upd_status :: "string option"
  upd_attachments :: "string list option option"
  upd_createdAt :: "int option"
  upd_updatedAt :: "int option"

definition no_updates :: ServiceRequestUpdates where
  "no_updates =
     \<lparr>upd_id = None, upd_productName = None, upd_serialNumber = None,
      upd_customerName = None, upd_customerContact = None, upd_issueDescription = None,
      upd_status = None, upd_attachments = None, upd_createdAt = None,
      upd_updatedAt = None\<rparr>"

section \<open>The keyed collection (JavaScript \<open>Map\<close>)\<close>

text \<open>
  A \<open>Map\<close> iterates in insertion order, and \<open>set\<close> on a key that is already there
  replaces the value in place. An association list with these two operations is
  that behaviour; \<open>values()\<close> is \<open>map snd\<close>.
\<close>

fun map_get :: "('k \<times> 'v) list \<Rightarrow> 'k \<Rightarrow> 'v option" where
  "map_get [] k = None"
| "map_get ((k', v) # es) k = (if k' = k then Some v else map_get es k)"

fun map_set :: "'k \<Rightarrow> 'v \<Rightarrow> ('k \<times> 'v) list \<Rightarrow> ('k \<times> 'v) list" where
  "map_set k v [] = [(k, v)]"
| "map_set k v ((k', v') # es) =
     (if k' = k then (k, v) # es else (k', v') # map_set k v es)"

definition map_values :: "('k \<times> 'v) list \<Rightarrow> 'v list" where
  "map_values es = map snd es"

section \<open>\<open>Array.prototype.sort\<close> and \<open>Date\<close>\<close>

text \<open>
  \<open>new Date(v).getTime()\<close> is the time value of the date, and NaN (here \<open>None\<close>)
  when the date is invalid: a time value is valid within 8.64e15 milliseconds of
  the epoch. A stored \<open>createdAt\<close> outside this range stands for an invalid date.
  A difference is NaN as soon as one operand is.
\<close>

definition getTime :: "int \<Rightarrow> int option" where
  "getTime v =
     (if - 8640000000000000 \<le> v \<and> v \<le> 8640000000000000 then Some v else None)"

definition minus_number :: "int option \<Rightarrow> int option \<Rightarrow> int option" where
  "minus_number x y = (case (x, y) of (Some a, Some b) \<Rightarrow> Some (a - b) | _ \<Rightarrow> None)"

text \<open>
  \<open>sort\<close> with a comparator. The language fixes the result when the comparator
  is consistent (the stable sort) and leaves the order open otherwise, as it is
  when the comparator yields NaN; the sort reads NaN as \<open>+0\<close>. The model is the
  procedure of the V8 engine for arrays of fewer than 64 elements: the leading
  run (ascending, or strictly descending and then reversed) is taken as it is,
  and each further element is placed by binary insertion. For a consistent
  comparator it is the stable sort whatever the length (lemma
  \<open>Array_sort_keyed\<close> below).
\<close>

definition Compare :: "('a \<Rightarrow> 'a \<Rightarrow> int option) \<Rightarrow> 'a \<Rightarrow> 'a \<Rightarrow> int" where
  "Compare comparefn x y = (case comparefn x y of None \<Rightarrow> 0 | Some v \<Rightarrow> v)"

fun countRun :: "('a \<Rightarrow> 'a \<Rightarrow> int option) \<Rightarrow> bool \<Rightarrow> 'a \<Rightarrow> 'a list \<Rightarrow> nat" where
  "countRun comparefn isDescending previousElement [] = 0"
| "countRun comparefn isDescending previousElement (currentElement # rest) =
     (if (if isDescending then 0 \<le> Compare comparefn currentElement previousElement
          else Compare comparefn currentElement previousElement < 0)
      then 0
      else Suc (countRun comparefn isDescending currentElement rest))"

text \<open>The leading run, made ascending, and the elements after it.\<close>

definition CountAndMakeRun :: "('a \<Rightarrow> 'a \<Rightarrow> int option) \<Rightarrow> 'a list \<Rightarrow> 'a list \<times> 'a list" where
  "CountAndMakeRun comparefn xs =
     (case xs of
        [] \<Rightarrow> ([], [])
      | [x] \<Rightarrow> ([x], [])
      | elementHigh # elementLow # rest \<Rightarrow>
          (let isDescending = (Compare comparefn elementLow elementHigh < 0);
               runLength = 2 + countRun comparefn isDescending elementLow rest
           in ((if isDescending then rev (take runLength xs) else take runLength xs),
               drop runLength xs)))"

text \<open>
  The binary search of the insertion: \<open>mid = left + ((right - left) >> 1)\<close>, then
  \<open>right = mid\<close> when \<open>Compare(pivot, a[mid]) < 0\<close> and \<open>left = mid + 1\<close> otherwise.
\<close>

function insertionPoint :: "('a \<Rightarrow> 'a \<Rightarrow> int option) \<Rightarrow> 'a \<Rightarrow> 'a list \<Rightarrow> nat" where
  "insertionPoint comparefn pivot xs =
     (if xs = [] then 0
      else if Compare comparefn pivot (xs ! (length xs div 2)) < 0
        then insertionPoint comparefn pivot (take (length xs div 2) xs)
        else length xs div 2 + 1
             + insertionPoint comparefn pivot (drop (length xs div 2 + 1) xs))"
  by pat_completeness auto
termination
  by (relation "measure (\<lambda>(comparefn, pivot, xs). length xs)") auto

declare insertionPoint.simps [simp del]

fun BinaryInsertionSort :: "('a \<Rightarrow> 'a \<Rightarrow> int option) \<Rightarrow> 'a list \<Rightarrow> 'a list \<Rightarrow> 'a list" where
  "BinaryInsertionSort comparefn run [] = run"
| "BinaryInsertionSort comparefn run (pivot # rest) =
     BinaryInsertionSort comparefn
       (take (insertionPoint comparefn pivot run) run @ pivot
          # drop (insertionPoint comparefn pivot run) run)
       rest"

definition Array_sort :: "('a \<Rightarrow> 'a \<Rightarrow> int option) \<Rightarrow> 'a list \<Rightarrow> 'a list" where
  "Array_sort comparefn xs =
     (case CountAndMakeRun comparefn xs of (run, rest) \<Rightarrow> BinaryInsertionSort comparefn run rest)"

text \<open>The two comparators of the listings.\<close>

definition byCreatedAtDescending :: "ServiceRequest \<Rightarrow> ServiceRequest \<Rightarrow> int option" where
  "byCreatedAtDescending a b =
     minus_number (getTime (sr_createdAt b)) (getTime (sr_createdAt a))"

definition byCreatedAtAscending :: "Comment \<Rightarrow> Comment \<Rightarrow> int option" where
  "byCreatedAtAscending a b =
     minus_number (getTime (c_createdAt a)) (getTime (c_createdAt b))"

section \<open>MemStorage\<close>

record MemStorage =
  serviceRequests :: "(string \<times> ServiceRequest) list"
  comments :: "(string \<times> Comment) list"

definition MemStorage_new :: MemStorage where
  "MemStorage_new = \<lparr>serviceRequests = [], comments = []\<rparr>"

definition getServiceRequest :: "MemStorage \<Rightarrow> string \<Rightarrow> ServiceRequest option" where
  "getServiceRequest s rid = map_get (serviceRequests s) rid"

text \<open>
  The listings sort with the comparator
  \<open>(a, b) => new Date(b.createdAt).getTime() - new Date(a.createdAt).getTime()\<close>.
\<close>

definition getAllServiceRequests :: "MemStorage \<Rightarrow> ServiceRequest list" where
  "getAllServiceRequests s =
     Array_sort byCreatedAtDescending (map_values (serviceRequests s))"

definition getActiveServiceRequests :: "MemStorage \<Rightarrow> ServiceRequest list" where
  "getActiveServiceRequests s =
     Array_sort byCreatedAtDescending
       (filter (\<lambda>request. sr_status request \<noteq> ''completed'')
          (map_values (serviceRequests s)))"

definition getCompletedServiceRequests :: "MemStorage \<Rightarrow> ServiceRequest list" where
  "getCompletedServiceRequests s =
     Array_sort byCreatedAtDescending
       (filter (\<lambda>request. sr_status request = ''completed'')
          (map_values (serviceRequests s)))"

text \<open>
  \<open>createServiceRequest\<close>: \<open>randomUUID()\<close> and \<open>new Date()\<close> are inputs of the
  model. \<open>x || d\<close> yields \<open>d\<close> when \<open>x\<close> is falsy: \<open>undefined\<close>, \<open>null\<close> and the
  empty string are, an array (also the empty one) is not.
\<close>

definition createServiceRequest ::
  "MemStorage \<Rightarrow> InsertServiceRequest \<Rightarrow> string \<Rightarrow> int \<Rightarrow> MemStorage \<times> ServiceRequest" where
  "createServiceRequest s insertServiceRequest rid now =
     (let serviceRequest =
        \<lparr>sr_id = rid,
         sr_productName = ins_productName insertServiceRequest,
         sr_serialNumber = ins_serialNumber insertServiceRequest,
         sr_customerName = ins_customerName insertServiceRequest,
         sr_customerContact = ins_customerContact insertServiceRequest,
         sr_issueDescription = ins_issueDescription insertServiceRequest,
         sr_status =
           (case ins_status insertServiceRequest of
              None \<Rightarrow> ''new''
            | Some st \<Rightarrow> if st = [] then ''new'' else st),
         sr_attachments =
           (case ins_attachments insertServiceRequest of
              None \<Rightarrow> Some []
            | Some None \<Rightarrow> Some []
            | Some (Some as) \<Rightarrow> Some as),
         sr_createdAt = now,
         sr_updatedAt = now\<rparr>
      in (s\<lparr>serviceRequests := map_set rid serviceRequest (serviceRequests s)\<rparr>,
          serviceRequest))"

text \<open>The object spread \<open>{...existing, ...updates}\<close>: a key of \<open>updates\<close> wins.\<close>

definition spread :: "ServiceRequest \<Rightarrow> ServiceRequestUpdates \<Rightarrow> ServiceRequest" where
  "spread existing updates =
     \<lparr>sr_id = (case upd_id updates of None \<Rightarrow> sr_id existing | Some v \<Rightarrow> v),
      sr_productName =
        (case upd_productName updates of None \<Rightarrow> sr_productName existing | Some v \<Rightarrow> v),
      sr_serialNumber =
        (case upd_serialNumber updates of None \<Rightarrow> sr_serialNumber existing | Some v \<Rightarrow> v),
      sr_customerName =
        (case upd_customerName updates of None \<Rightarrow> sr_customerName existing | Some v \<Rightarrow> v),
      sr_customerContact =
        (case upd_customerContact updates of
           None \<Rightarrow> sr_customerContact existing | Some v \<Rightarrow> v),
      sr_issueDescription =
        (case upd_issueDescription updates of
           None \<Rightarrow> sr_issueDescription existing | Some v \<Rightarrow> v),
      sr_status = (case upd_status updates of None \<Rightarrow> sr_status existing | Some v \<Rightarrow> v),
      sr_attachments =
        (case upd_attachments updates of None \<Rightarrow> sr_attachments existing | Some v \<Rightarrow> v),
      sr_createdAt =
        (case upd_createdAt updates of None \<Rightarrow> sr_createdAt existing | Some v \<Rightarrow> v),
      sr_updatedAt =
        (case upd_updatedAt updates of None \<Rightarrow> sr_updatedAt existing | Some v \<Rightarrow> v)\<rparr>"

text \<open>
  \<open>updateServiceRequest\<close>: \<open>undefined\<close> for an absent key, otherwise
  \<open>{...existing, ...updates, updatedAt: new Date()}\<close> stored under the same key.
\<close>

definition updateServiceRequest ::
  "MemStorage \<Rightarrow> string \<Rightarrow> ServiceRequestUpdates \<Rightarrow> int
     \<Rightarrow> MemStorage \<times> ServiceRequest option" where
  "updateServiceRequest s rid updates now =
     (case map_get (serviceRequests s) rid of
        None \<Rightarrow> (s, None)
      | Some existing \<Rightarrow>
          (let updated = (spread existing updates)\<lparr>sr_updatedAt := now\<rparr>
           in (s\<lparr>serviceRequests := map_set rid updated (serviceRequests s)\<rparr>,
               Some updated)))"

text \<open>
  \<open>searchServiceRequests\<close>. \<open>includes\<close> is the literal substring test.
  \<open>toLowerCase\<close> is modelled on ASCII text only: it maps the letters A to Z to
  a to z and leaves every other byte alone. JavaScript also folds letters outside
  ASCII (U+00C9 to U+00E9, say); text with such letters is outside the model,
  and nothing below is stated about it.
\<close>

definition toLower :: "char \<Rightarrow> char" where
  "toLower c =
     (let n = (of_char c :: nat) in if 65 \<le> n \<and> n \<le> 90 then char_of (n + 32) else c)"

definition toLowerCase :: "string \<Rightarrow> string" where
  "toLowerCase s = map toLower s"

fun startsWith :: "string \<Rightarrow> string \<Rightarrow> bool" where
  "startsWith s [] = True"
| "startsWith [] (q # qs) = False"
| "startsWith (c # cs) (q # qs) = (c = q \<and> startsWith cs qs)"

fun includes_str :: "string \<Rightarrow> string \<Rightarrow> bool" where
  "includes_str [] q = (q = [])"
| "includes_str (c # cs) q = (startsWith (c # cs) q \<or> includes_str cs q)"

definition searchServiceRequests :: "MemStorage \<Rightarrow> string \<Rightarrow> ServiceRequest list" where
  "searchServiceRequests s query =
     (let lowercaseQuery = toLowerCase query
      in Array_sort byCreatedAtDescending
           (filter
              (\<lambda>request.
                 includes_str (toLowerCase (sr_customerContact request)) lowercaseQuery \<or>
                 includes_str (toLowerCase (sr_serialNumber request)) lowercaseQuery \<or>
                 includes_str (toLowerCase (sr_customerName request)) lowercaseQuery \<or>
                 includes_str (toLowerCase (sr_productName request)) lowercaseQuery)
              (map_values (serviceRequests s))))"

text \<open>
  Comments: the comparator is
  \<open>(a, b) => new Date(a.createdAt).getTime() - new Date(b.createdAt).getTime()\<close>.
\<close>

definition getCommentsByServiceRequestId :: "MemStorage \<Rightarrow> string \<Rightarrow> Comment list" where
  "getCommentsByServiceRequestId s serviceRequestId =
     Array_sort byCreatedAtAscending
       (filter (\<lambda>comment. c_serviceRequestId comment = serviceRequestId)
          (map_values (comments s)))"

definition createComment ::
  "MemStorage \<Rightarrow> InsertComment \<Rightarrow> string \<Rightarrow> int \<Rightarrow> MemStorage \<times> Comment" where
  "createComment s insertComment cid now =
     (let comment =
        \<lparr>c_id = cid,
         c_serviceRequestId = ic_serviceRequestId insertComment,
         c_text = ic_text insertComment,
         c_createdAt = now\<rparr>
      in (s\<lparr>comments := map_set cid comment (comments s)\<rparr>, comment))"

record Metrics =
  totalActive :: nat
  newComplaints :: nat
  underInspection :: nat
  sentToService :: nat
  received :: nat

definition getMetrics :: "MemStorage \<Rightarrow> Metrics" where
  "getMetrics s =
     (let activeRequests = getActiveServiceRequests s
      in \<lparr>totalActive = length activeRequests,
          newComplaints = length (filter (\<lambda>r. sr_status r = ''new'') activeRequests),
          underInspection = length (filter (\<lambda>r. sr_status r = ''inspection'') activeRequests),
          sentToService = length (filter (\<lambda>r. sr_status r = ''service'') activeRequests),
          received = length (filter (\<lambda>r. sr_status r = ''received'') activeRequests)\<rparr>)"

section \<open>DatabaseStorage: the search condition\<close>

text \<open>
  \<open>DatabaseStorage.searchServiceRequests\<close> selects the rows for which one of four
  \<open>ILIKE\<close> conditions holds, each with the pattern \<open>%query%\<close>, the query pasted in
  as it is. In a \<open>LIKE\<close> pattern \<open>%\<close> stands for any run of characters, \<open>_\<close> for
  any one character, and a backslash makes the next character literal. (A
  pattern that ends in a lone backslash is an error in PostgreSQL; the patterns
  built here end in \<open>%\<close>, and the model answers no match.) \<open>ILIKE\<close> is \<open>LIKE\<close>
  without regard to case. The table is the list of its rows; SQL leaves the
  order of rows with equal \<open>createdAt\<close> open, the model keeps them as they are.
\<close>

fun like_match :: "string \<Rightarrow> string \<Rightarrow> bool" where
  "like_match [] t = (t = [])"
| "like_match (p # ps) [] = (p = CHR ''%'' \<and> like_match ps [])"
| "like_match (p # ps) (c # t) =
     (if p = CHR ''%'' then like_match ps (c # t) \<or> like_match (p # ps) t
      else if p = CHR ''_'' then like_match ps t
      else if p = CHR 0x5C then
        (case ps of [] \<Rightarrow> False | q # qs \<Rightarrow> c = q \<and> like_match qs t)
      else c = p \<and> like_match ps t)"

definition ilike :: "string \<Rightarrow> string \<Rightarrow> bool" where
  "ilike column pattern = like_match (toLowerCase pattern) (toLowerCase column)"

definition DatabaseStorage_searchServiceRequests ::
  "ServiceRequest list \<Rightarrow> string \<Rightarrow> ServiceRequest list" where
  "DatabaseStorage_searchServiceRequests rows query =
     sort_key (\<lambda>r. - sr_createdAt r)
       (filter
          (\<lambda>r. ilike (sr_customerContact r) (''%'' @ query @ ''%'') \<or>
               ilike (sr_serialNumber r) (''%'' @ query @ ''%'') \<or>
               ilike (sr_customerName r) (''%'' @ query @ ''%'') \<or>
               ilike (sr_productName r) (''%'' @ query @ ''%''))
          rows)"

section \<open>Request bodies and the insert schemas\<close>

datatype json =
    JNull
  | JBool bool
  | JNum int
  | JStr string
  | JArr "json list"
  | JObj "(string \<times> json) list"

text \<open>
  The insert schemas that \<open>createInsertSchema\<close> derives from the tables: a
  \<open>notNull\<close> text column without default is a required string, one with a
  default an optional string, the nullable text array an optional, nullable
  array of strings. \<open>parse\<close> reports every violated field and drops the keys that
  the schema does not name.
\<close>

fun is_string :: "json option \<Rightarrow> bool" where
  "is_string (Some (JStr v)) = True"
| "is_string _ = False"

fun the_string :: "json option \<Rightarrow> string" where
  "the_string (Some (JStr v)) = v"
| "the_string _ = []"

fun is_optional_string :: "json option \<Rightarrow> bool" where
  "is_optional_string None = True"
| "is_optional_string (Some (JStr v)) = True"
| "is_optional_string _ = False"

fun the_optional_string :: "json option \<Rightarrow> string option" where
  "the_optional_string (Some (JStr v)) = Some v"
| "the_optional_string _ = None"

fun is_optional_string_array :: "json option \<Rightarrow> bool" where
  "is_optional_string_array None = True"
| "is_optional_string_array (Some JNull) = True"
| "is_optional_string_array (Some (JArr vs)) = list_all (\<lambda>v. is_string (Some v)) vs"
| "is_optional_string_array _ = False"

fun the_optional_string_array :: "json option \<Rightarrow> string list option option" where
  "the_optional_string_array (Some JNull) = Some None"
| "the_optional_string_array (Some (JArr vs)) = Some (Some (map (\<lambda>v. the_string (Some v)) vs))"
| "the_optional_string_array _ = None"

definition insertServiceRequestSchema_parse ::
  "(string \<times> json) list \<Rightarrow> string list + InsertServiceRequest" where
  "insertServiceRequestSchema_parse body =
     (let issues =
        filter (\<lambda>k. \<not> is_string (map_get body k))
          [''productName'', ''serialNumber'', ''customerName'', ''customerContact'',
           ''issueDescription''] @
        filter (\<lambda>k. \<not> is_optional_string (map_get body k)) [''status''] @
        filter (\<lambda>k. \<not> is_optional_string_array (map_get body k)) [''attachments'']
      in if issues \<noteq> [] then Inl issues
         else Inr
           \<lparr>ins_productName = the_string (map_get body ''productName''),
            ins_serialNumber = the_string (map_get body ''serialNumber''),
            ins_customerName = the_string (map_get body ''customerName''),
            ins_customerContact = the_string (map_get body ''customerContact''),
            ins_issueDescription = the_string (map_get body ''issueDescription''),
            ins_status = the_optional_string (map_get body ''status''),
            ins_attachments = the_optional_string_array (map_get body ''attachments'')\<rparr>)"

definition insertCommentSchema_parse ::
  "(string \<times> json) list \<Rightarrow> string list + InsertComment" where
  "insertCommentSchema_parse body =
     (let issues =
        filter (\<lambda>k. \<not> is_string (map_get body k)) [''serviceRequestId'', ''text'']
      in if issues \<noteq> [] then Inl issues
         else Inr
           \<lparr>ic_serviceRequestId = the_string (map_get body ''serviceRequestId''),
            ic_text = the_string (map_get body ''text'')\<rparr>)"

text \<open>
  What \<open>res.json\<close> sends for a comment: the own properties of the object that
  \<open>createComment\<close> builds, \<open>{...insertComment, id, createdAt}\<close>, in that order
  (the timestamp stands for its ISO string).
\<close>

definition Comment_toJSON :: "Comment \<Rightarrow> (string \<times> json) list" where
  "Comment_toJSON comment =
     [(''serviceRequestId'', JStr (c_serviceRequestId comment)),
      (''text'', JStr (c_text comment)),
      (''id'', JStr (c_id comment)),
      (''createdAt'', JNum (c_createdAt comment))]"

section \<open>API layer (server/routes.ts)\<close>

text \<open>
  A handler's answer: a status with the JSON of a value, a status with an
  \<open>{error: message}\<close> body, or the 400 that carries the issues of a \<open>ZodError\<close>
  (the names of the violated fields).
\<close>

datatype 'a response =
    Json nat 'a
  | Error nat string
  | ValidationError nat "string list"

text \<open>\<open>PATCH /api/service-requests/:id\<close>: the body goes to the store as it is.\<close>

definition PATCH_service_request ::
  "MemStorage \<Rightarrow> string \<Rightarrow> ServiceRequestUpdates \<Rightarrow> int
     \<Rightarrow> MemStorage \<times> ServiceRequest response" where
  "PATCH_service_request s rid updates now =
     (case updateServiceRequest s rid updates now of
        (s', None) \<Rightarrow> (s', Error 404 ''Service request not found'')
      | (s', Some request) \<Rightarrow> (s', Json 200 request))"

text \<open>\<open>POST /api/service-requests\<close>: validate, create, answer 201.\<close>

definition POST_service_requests ::
  "MemStorage \<Rightarrow> (string \<times> json) list \<Rightarrow> string \<Rightarrow> int
     \<Rightarrow> MemStorage \<times> ServiceRequest response" where
  "POST_service_requests s body rid now =
     (case insertServiceRequestSchema_parse body of
        Inl issues \<Rightarrow> (s, ValidationError 400 issues)
      | Inr validatedData \<Rightarrow>
          (case createServiceRequest s validatedData rid now of
             (s', request) \<Rightarrow> (s', Json 201 request)))"

text \<open>
  \<open>POST /api/service-requests/:id/comments\<close>: the body with \<open>serviceRequestId\<close>
  set to the path parameter is validated, then stored.
\<close>

definition POST_comments ::
  "MemStorage \<Rightarrow> string \<Rightarrow> (string \<times> json) list \<Rightarrow> string \<Rightarrow> int
     \<Rightarrow> MemStorage \<times> Comment response" where
  "POST_comments s rid body cid now =
     (case insertCommentSchema_parse (map_set ''serviceRequestId'' (JStr rid) body) of
        Inl issues \<Rightarrow> (s, ValidationError 400 issues)
      | Inr validatedData \<Rightarrow>
          (case createComment s validatedData cid now of
             (s', comment) \<Rightarrow> (s', Json 201 comment)))"

definition GET_comments :: "MemStorage \<Rightarrow> string \<Rightarrow> Comment list response" where
  "GET_comments s rid = Json 200 (getCommentsByServiceRequestId s rid)"

text \<open>\<open>request.attachments || []\<close>: the attachment list of a record, \<open>null\<close> read as empty.\<close>

definition attachments_or_empty :: "ServiceRequest \<Rightarrow> string list" where
  "attachments_or_empty request =
     (case sr_attachments request of None \<Rightarrow> [] | Some refs \<Rightarrow> refs)"

text \<open>
  \<open>POST /api/service-requests/:id/attachments\<close>. The \<open>attachments\<close> of the body
  is \<open>None\<close> when it is missing or not an array (an array with entries that are
  not strings is outside the model). The record is looked up by its \<open>id\<close> field
  in \<open>getAllServiceRequests()\<close>, the write goes through \<open>updateServiceRequest\<close>,
  and its result is sent as it is.
\<close>

definition POST_attachments ::
  "MemStorage \<Rightarrow> string \<Rightarrow> string list option \<Rightarrow> int
     \<Rightarrow> MemStorage \<times> ServiceRequest option response" where
  "POST_attachments s rid attachments now =
     (case attachments of
        None \<Rightarrow> (s, Error 400 ''Attachments array is required'')
      | Some new \<Rightarrow>
          (case find (\<lambda>r. sr_id r = rid) (getAllServiceRequests s) of
             None \<Rightarrow> (s, Error 404 ''Service request not found'')
           | Some request \<Rightarrow>
               (let currentAttachments = attachments_or_empty request
                in case updateServiceRequest s rid
                          (no_updates\<lparr>upd_attachments := Some (Some (currentAttachments @ new))\<rparr>)
                          now of
                     (s', updatedRequest) \<Rightarrow> (s', Json 200 updatedRequest))))"

section \<open>Runs of calls\<close>


text \<open>A run of attachment-append calls for one id, one after the other.\<close>

fun append_calls :: "MemStorage \<Rightarrow> string \<Rightarrow> (string list \<times> int) list \<Rightarrow> MemStorage" where
  "append_calls s rid [] = s"
| "append_calls s rid ((refs, now) # calls) =
     append_calls (fst (POST_attachments s rid (Some refs) now)) rid calls"

section \<open>Notions used in the statements\<close>

text \<open>
  A store is well keyed when its keys are distinct and every record is stored
  under its own \<open>id\<close>: what \<open>createServiceRequest\<close> establishes.
\<close>

definition keys_match_ids :: "MemStorage \<Rightarrow> bool" where
  "keys_match_ids s \<longleftrightarrow>
     distinct (map fst (serviceRequests s)) \<and>
     list_all (\<lambda>(k, r). sr_id r = k) (serviceRequests s)"

text \<open>The stored requests, respectively comments, all carry a valid \<open>createdAt\<close>.\<close>

definition requests_dated :: "MemStorage \<Rightarrow> bool" where
  "requests_dated s \<longleftrightarrow>
     list_all (\<lambda>r. getTime (sr_createdAt r) \<noteq> None) (map_values (serviceRequests s))"

definition comments_dated :: "MemStorage \<Rightarrow> bool" where
  "comments_dated s \<longleftrightarrow>
     list_all (\<lambda>c. getTime (c_createdAt c) \<noteq> None) (map_values (comments s))"

text \<open>
  The specification's search condition, in its own words: the query is a
  substring of the field up to case, that is, some stretch of the field equals
  the query once both are put in lower case; a record qualifies when one of its
  four searchable fields does.
\<close>

definition ci_substring :: "string \<Rightarrow> string \<Rightarrow> bool" where
  "ci_substring q field \<longleftrightarrow>
     (\<exists>pre mid suf. field = pre @ mid @ suf \<and> toLowerCase mid = toLowerCase q)"

definition search_spec :: "string \<Rightarrow> ServiceRequest \<Rightarrow> bool" where
  "search_spec q r \<longleftrightarrow>
     ci_substring q (sr_customerContact r) \<or> ci_substring q (sr_serialNumber r) \<or>
     ci_substring q (sr_customerName r) \<or> ci_substring q (sr_productName r)"

section \<open>Example data\<close>

text \<open>The request of the specification's worked example, and stores built from it.\<close>

definition pump_x :: InsertServiceRequest where
  "pump_x =
     \<lparr>ins_productName = ''Pump-X'', ins_serialNumber = ''SN1'', ins_customerName = ''Acme'',
      ins_customerContact = ''a@x.com'', ins_issueDescription = ''leak'',
      ins_status = None, ins_attachments = None\<rparr>"

definition pump_record :: ServiceRequest where
  "pump_record =
     \<lparr>sr_id = ''r1'', sr_productName = ''Pump-X'', sr_serialNumber = ''SN1'',
      sr_customerName = ''Acme'', sr_customerContact = ''a@x.com'',
      sr_issueDescription = ''leak'', sr_status = ''new'', sr_attachments = Some [],
      sr_createdAt = 1000, sr_updatedAt = 1000\<rparr>"

definition on_hold_r2 :: ServiceRequest where
  "on_hold_r2 =
     pump_record\<lparr>sr_id := ''r2'', sr_status := ''on-hold'', sr_createdAt := 2000,
                  sr_updatedAt := 2000\<rparr>"

definition completed_r3 :: ServiceRequest where
  "completed_r3 =
     pump_record\<lparr>sr_id := ''r3'', sr_status := ''completed'', sr_createdAt := 3000,
                  sr_updatedAt := 3000\<rparr>"

definition on_hold_record :: ServiceRequest where
  "on_hold_record =
     \<lparr>sr_id = ''r1'', sr_productName = ''Pump-X'', sr_serialNumber = ''SN1'',
      sr_customerName = ''Acme'', sr_customerContact = ''a@x.com'',
      sr_issueDescription = ''leak'', sr_status = ''on-hold'', sr_attachments = Some [],
      sr_createdAt = 1000, sr_updatedAt = 1000\<rparr>"

definition on_hold_body :: "(string \<times> json) list" where
  "on_hold_body =
     [(''productName'', JStr ''Pump-X''), (''serialNumber'', JStr ''SN1''),
      (''customerName'', JStr ''Acme''), (''customerContact'', JStr ''a@x.com''),
      (''issueDescription'', JStr ''leak''), (''status'', JStr ''on-hold'')]"

definition one_request :: MemStorage where
  "one_request = fst (createServiceRequest MemStorage_new pump_x ''r1'' 1000)"

definition on_hold_store :: MemStorage where
  "on_hold_store =
     fst (createServiceRequest MemStorage_new (pump_x\<lparr>ins_status := Some ''on-hold''\<rparr>)
            ''r1'' 1000)"

definition mixed_store :: MemStorage where
  "mixed_store =
     fst (createServiceRequest
            (fst (createServiceRequest one_request
                    (pump_x\<lparr>ins_status := Some ''on-hold''\<rparr>) ''r2'' 2000))
            (pump_x\<lparr>ins_status := Some ''completed''\<rparr>) ''r3'' 3000)"

definition inspected_request :: MemStorage where
  "inspected_request =
     fst (updateServiceRequest one_request ''r1''
            (no_updates\<lparr>upd_status := Some ''inspection''\<rparr>) 1500)"

text \<open>The stored request after an update whose fields carry \<open>id: "r2"\<close>.\<close>

definition renamed_request :: MemStorage where
  "renamed_request =
     fst (updateServiceRequest one_request ''r1'' (no_updates\<lparr>upd_id := Some ''r2''\<rparr>) 1500)"

text \<open>
  The three requests after an update of the second one whose fields carry a
  \<open>createdAt\<close> of 1e16 milliseconds, which is no valid date.
\<close>

definition far_future_store :: MemStorage where
  "far_future_store =
     fst (updateServiceRequest mixed_store ''r2''
            (no_updates\<lparr>upd_createdAt := Some 10000000000000000\<rparr>) 3500)"

text \<open>The three requests with three comments, stored in an order that is not their time order.\<close>

definition three_comments :: MemStorage where
  "three_comments =
     fst (createComment
            (fst (createComment
                    (fst (createComment mixed_store
                            \<lparr>ic_serviceRequestId = ''r1'', ic_text = ''third''\<rparr> ''c3'' 3030))
                    \<lparr>ic_serviceRequestId = ''r2'', ic_text = ''other''\<rparr> ''c0'' 3015))
            \<lparr>ic_serviceRequestId = ''r1'', ic_text = ''first''\<rparr> ''c1'' 3010)"

definition photo_comment_body :: "(string \<times> json) list" where
  "photo_comment_body =
     [(''text'', JStr ''see photo''), (''attachments'', JArr [JStr ''/objects/uploads/a1''])]"

definition photo_comment :: Comment where
  "photo_comment =
     \<lparr>c_id = ''c1'', c_serviceRequestId = ''r1'', c_text = ''see photo'', c_createdAt = 3000\<rparr>"

section \<open>The keyed collection: basic facts\<close>

lemma map_get_map_set: "map_get (map_set k v es) k' = (if k' = k then Some v else map_get es k')"
  by (induction es) auto

lemma map_get_Some_mem: "map_get es k = Some v \<Longrightarrow> (k, v) \<in> set es"
  by (induction es) (auto split: if_splits)

lemma set_map_set: "set (map_set k v es) \<subseteq> insert (k, v) (set es)"
  by (induction es) (auto split: if_splits)

lemma keys_map_set:
  "map fst (map_set k v es) = (if k \<in> fst ` set es then map fst es else map fst es @ [k])"
proof (induction es)
  case Nil
  then show ?case by simp
next
  case (Cons e es)
  obtain k' v' where e: "e = (k', v')" by (cases e)
  show ?case
  proof (cases "k' = k")
    case True
    with e show ?thesis by simp
  next
    case False
    with e Cons show ?thesis by simp
  qed
qed

lemma find_the_only:
  assumes "r \<in> set xs" and "P r" and "\<forall>x \<in> set xs. P x \<longrightarrow> x = r"
  shows "find P xs = Some r"
  using assms
proof (induction xs)
  case Nil
  then show ?case by simp
next
  case (Cons x xs)
  show ?case
  proof (cases "P x")
    case True
    with Cons.prems have "x = r" by simp
    with True show ?thesis by simp
  next
    case False
    with Cons.prems have "r \<in> set xs" by auto
    moreover from Cons.prems have "\<forall>x \<in> set xs. P x \<longrightarrow> x = r" by simp
    ultimately have "find P xs = Some r" using Cons.IH Cons.prems(2) by blast
    with False show ?thesis by simp
  qed
qed

section \<open>The sort\<close>

lemma CountAndMakeRun_parts:
  "\<exists>n. snd (CountAndMakeRun c xs) = drop n xs
       \<and> (fst (CountAndMakeRun c xs) = take n xs \<or> fst (CountAndMakeRun c xs) = rev (take n xs))"
proof (cases xs)
  case Nil
  then show ?thesis by (simp add: CountAndMakeRun_def)
next
  case (Cons x ys)
  show ?thesis
  proof (cases ys)
    case Nil
    with Cons have "snd (CountAndMakeRun c xs) = drop 1 xs \<and> fst (CountAndMakeRun c xs) = take 1 xs"
      by (simp add: CountAndMakeRun_def)
    then show ?thesis by blast
  next
    case (Cons y zs)
    let ?n = "2 + countRun c (Compare c y x < 0) y zs"
    from Cons \<open>xs = x # ys\<close>
    have "snd (CountAndMakeRun c xs) = drop ?n xs
        \<and> (fst (CountAndMakeRun c xs) = take ?n xs \<or> fst (CountAndMakeRun c xs) = rev (take ?n xs))"
      by (simp add: CountAndMakeRun_def Let_def)
    then show ?thesis by blast
  qed
qed

lemma mset_take_drop: "mset (take k xs) + mset (drop k xs) = mset xs"
  by (metis append_take_drop_id mset_append)

lemma mset_CountAndMakeRun:
  "mset (fst (CountAndMakeRun c xs)) + mset (snd (CountAndMakeRun c xs)) = mset xs"
proof -
  obtain n where "snd (CountAndMakeRun c xs) = drop n xs"
    and "fst (CountAndMakeRun c xs) = take n xs \<or> fst (CountAndMakeRun c xs) = rev (take n xs)"
    using CountAndMakeRun_parts by blast
  then have "mset (fst (CountAndMakeRun c xs)) + mset (snd (CountAndMakeRun c xs))
      = mset (take n xs) + mset (drop n xs)"
    by auto
  then show ?thesis by (simp only: mset_take_drop)
qed

lemma mset_insert_at: "mset (take k run @ p # drop k run) = add_mset p (mset run)"
  using mset_take_drop [of k run] by simp

lemma mset_BinaryInsertionSort: "mset (BinaryInsertionSort c run rest) = mset run + mset rest"
  by (induction rest arbitrary: run) (simp_all add: mset_take_drop)

lemma mset_Array_sort: "mset (Array_sort c xs) = mset xs"
proof -
  have "mset (Array_sort c xs)
      = mset (fst (CountAndMakeRun c xs)) + mset (snd (CountAndMakeRun c xs))"
    by (simp add: Array_sort_def mset_BinaryInsertionSort split: prod.splits)
  then show ?thesis by (simp add: mset_CountAndMakeRun)
qed

lemma set_Array_sort: "set (Array_sort c xs) = set xs"
  by (metis mset_Array_sort set_mset_mset)

lemma length_Array_sort: "length (Array_sort c xs) = length xs"
  by (metis mset_Array_sort size_mset)


lemma insertionPoint_le: "insertionPoint c p xs \<le> length xs"
proof (induction c p xs rule: insertionPoint.induct)
  case (1 c p xs)
  show ?case
  proof (cases "xs = []")
    case True
    then show ?thesis by (simp add: insertionPoint.simps)
  next
    case False
    then have mid: "length xs div 2 < length xs" by simp
    show ?thesis
    proof (cases "Compare c p (xs ! (length xs div 2)) < 0")
      case True
      with False 1(1) have "insertionPoint c p (take (length xs div 2) xs) \<le> length xs div 2"
        by simp
      with False True mid show ?thesis
        by (subst insertionPoint.simps) simp
    next
      case neg: False
      with False 1(2)
      have "insertionPoint c p (drop (length xs div 2 + 1) xs) \<le> length xs - (length xs div 2 + 1)"
        by simp
      with mid have "length xs div 2 + 1
          + insertionPoint c p (drop (length xs div 2 + 1) xs) \<le> length xs"
        by arith
      with False neg show ?thesis
        by (subst insertionPoint.simps) simp
    qed
  qed
qed

lemma insertionPoint_splits:
  assumes "\<forall>a \<in> insert p (set xs). \<forall>b \<in> insert p (set xs). (Compare c a b < 0) = (f a < f b)"
    and "sorted (map f xs)"
  shows "(\<forall>y \<in> set (take (insertionPoint c p xs) xs). f y \<le> (f p :: int))
       \<and> (\<forall>y \<in> set (drop (insertionPoint c p xs) xs). f p < f y)"
  using assms
proof (induction c p xs rule: insertionPoint.induct)
  case (1 c p xs)
  show ?case
  proof (cases "xs = []")
    case True
    then show ?thesis by simp
  next
    case False
    let ?m = "length xs div 2"
    let ?A = "take ?m xs" and ?x = "xs ! ?m" and ?B = "drop (Suc ?m) xs"
    from False have mid: "?m < length xs" by simp
    then have split: "xs = ?A @ ?x # ?B"
      by (rule id_take_nth_drop)
    then have "sorted (map f (?A @ ?x # ?B))"
      using "1.prems"(2) by simp
    then have sA: "sorted (map f ?A)" and sB: "sorted (map f ?B)"
      and lo: "\<forall>a \<in> set ?A. f a \<le> f ?x" and hi: "\<forall>b \<in> set ?B. f ?x \<le> f b"
      by (auto simp: sorted_append)
    have x_in: "?x \<in> set xs" using mid by simp
    have keyA: "\<forall>a \<in> insert p (set ?A). \<forall>b \<in> insert p (set ?A). (Compare c a b < 0) = (f a < f b)"
      using "1.prems"(1) by (auto dest: in_set_takeD)
    have keyB: "\<forall>a \<in> insert p (set (drop (?m + 1) xs)). \<forall>b \<in> insert p (set (drop (?m + 1) xs)).
        (Compare c a b < 0) = (f a < f b)"
      using "1.prems"(1) by (auto dest: in_set_dropD)
    show ?thesis
    proof (cases "Compare c p ?x < 0")
      case True
      with x_in "1.prems"(1) have px: "f p < f ?x" by simp
      let ?k = "insertionPoint c p ?A"
      have point: "insertionPoint c p xs = ?k"
        using False True by (subst insertionPoint.simps) simp
      have k_le: "?k \<le> ?m"
        using insertionPoint_le [of c p ?A] mid by simp
      from "1.IH"(1) [OF False True keyA sA]
      have ihA: "(\<forall>y \<in> set (take ?k ?A). f y \<le> f p) \<and> (\<forall>y \<in> set (drop ?k ?A). f p < f y)" .
      have tk: "take ?k xs = take ?k ?A"
        using k_le by (simp add: min_def)
      have "drop ?k xs = drop ?k (?A @ ?x # ?B)"
        using split by simp
      also have "\<dots> = drop ?k ?A @ ?x # ?B"
        using k_le mid by simp
      finally have dk: "drop ?k xs = drop ?k ?A @ ?x # ?B" .
      from ihA px hi show ?thesis
        unfolding point tk dk by auto
    next
      case neg: False
      with x_in "1.prems"(1) have xp: "f ?x \<le> f p" by (simp add: not_less)
      let ?B' = "drop (?m + 1) xs"
      let ?k = "insertionPoint c p ?B'"
      have point: "insertionPoint c p xs = ?m + 1 + ?k"
        using False neg by (subst insertionPoint.simps) simp
      have sB': "sorted (map f ?B')" using sB by simp
      from "1.IH"(2) [OF False neg keyB sB']
      have ihB: "(\<forall>y \<in> set (take ?k ?B'). f y \<le> f p) \<and> (\<forall>y \<in> set (drop ?k ?B'). f p < f y)" .
      have "take (?m + 1 + ?k) xs = take (?m + 1 + ?k) (?A @ ?x # ?B)"
        using split by simp
      also have "\<dots> = ?A @ ?x # take ?k ?B"
        using mid by simp
      finally have tk: "take (?m + 1 + ?k) xs = ?A @ ?x # take ?k ?B'" by simp
      have dk: "drop (?m + 1 + ?k) xs = drop ?k ?B'"
        by (simp add: add.commute)
      from ihB xp lo show ?thesis
        unfolding point tk dk by auto
    qed
  qed
qed

lemma insert_keeps_sorted:
  assumes "sorted (map f run)"
    and "\<forall>y \<in> set (take k run). f y \<le> (f p :: int)"
    and "\<forall>y \<in> set (drop k run). f p < f y"
  shows "sorted (map f (take k run @ p # drop k run))"
proof -
  from assms(1) have "sorted (map f (take k run) @ map f (drop k run))"
    by (metis append_take_drop_id map_append)
  then have "sorted (map f (take k run))" and "sorted (map f (drop k run))"
    by (simp_all add: sorted_append)
  with assms(2,3) show ?thesis
    by (fastforce simp: sorted_append)
qed

lemma insert_is_stable:
  assumes "\<forall>y \<in> set (drop k run). f p < (f y :: int)"
  shows "filter (\<lambda>x. f x = v) (take k run @ p # drop k run) = filter (\<lambda>x. f x = v) (run @ [p])"
proof (cases "f p = v")
  case True
  with assms have "filter (\<lambda>x. f x = v) (drop k run) = []"
    by (auto simp: filter_empty_conv)
  moreover have "filter (\<lambda>x. f x = v) run
      = filter (\<lambda>x. f x = v) (take k run) @ filter (\<lambda>x. f x = v) (drop k run)"
    by (metis append_take_drop_id filter_append)
  ultimately show ?thesis using True by simp
next
  case False
  have "filter (\<lambda>x. f x = v) run
      = filter (\<lambda>x. f x = v) (take k run) @ filter (\<lambda>x. f x = v) (drop k run)"
    by (metis append_take_drop_id filter_append)
  with False show ?thesis by simp
qed

lemma BinaryInsertionSort_keyed:
  assumes "\<forall>a \<in> set run \<union> set rest. \<forall>b \<in> set run \<union> set rest. (Compare c a b < 0) = (f a < f b)"
    and "sorted (map f run)"
  shows "sorted (map f (BinaryInsertionSort c run rest))
       \<and> (\<forall>v :: int. filter (\<lambda>x. f x = v) (BinaryInsertionSort c run rest)
                    = filter (\<lambda>x. f x = v) (run @ rest))"
  using assms
proof (induction rest arbitrary: run)
  case Nil
  then show ?case by simp
next
  case (Cons p rest)
  let ?k = "insertionPoint c p run"
  let ?run = "take ?k run @ p # drop ?k run"
  have key: "\<forall>a \<in> insert p (set run). \<forall>b \<in> insert p (set run). (Compare c a b < 0) = (f a < f b)"
    using Cons.prems(1) by simp
  from insertionPoint_splits [OF key Cons.prems(2)]
  have lo: "\<forall>y \<in> set (take ?k run). f y \<le> f p" and hi: "\<forall>y \<in> set (drop ?k run). f p < f y"
    by simp_all
  have sorted': "sorted (map f ?run)"
    by (rule insert_keeps_sorted [OF Cons.prems(2) lo hi])
  have "set (take ?k run) \<union> set (drop ?k run) = set run"
    by (metis append_take_drop_id set_append)
  then have elems: "set ?run = insert p (set run)" by auto
  have key': "\<forall>a \<in> set ?run \<union> set rest. \<forall>b \<in> set ?run \<union> set rest.
      (Compare c a b < 0) = (f a < f b)"
    unfolding elems using Cons.prems(1) by simp
  from Cons.IH [OF key' sorted']
  have ih: "sorted (map f (BinaryInsertionSort c ?run rest))
       \<and> (\<forall>v. filter (\<lambda>x. f x = v) (BinaryInsertionSort c ?run rest)
                = filter (\<lambda>x. f x = v) (?run @ rest))" .
  have "filter (\<lambda>x. f x = v) (?run @ rest) = filter (\<lambda>x. f x = v) (run @ p # rest)" for v
  proof -
    have "filter (\<lambda>x. f x = v) (?run @ rest)
        = filter (\<lambda>x. f x = v) ?run @ filter (\<lambda>x. f x = v) rest"
      by (rule filter_append)
    also have "\<dots> = filter (\<lambda>x. f x = v) (run @ [p]) @ filter (\<lambda>x. f x = v) rest"
      by (simp only: insert_is_stable [OF hi])
    also have "\<dots> = filter (\<lambda>x. f x = v) (run @ p # rest)"
      by simp
    finally show ?thesis .
  qed
  with ih show ?case by simp
qed


lemma countRun_ascending:
  assumes "\<forall>a \<in> insert prev (set rest). \<forall>b \<in> insert prev (set rest). (Compare c a b < 0) = (f a < f b)"
  shows "sorted (map f (prev # take (countRun c False prev rest) rest) :: int list)"
  using assms
proof (induction rest arbitrary: prev)
  case Nil
  then show ?case by simp
next
  case (Cons cur rest)
  show ?case
  proof (cases "Compare c cur prev < 0")
    case True
    then show ?thesis by simp
  next
    case False
    with Cons.prems have step: "f prev \<le> f cur" by (simp add: not_less)
    have "\<forall>a \<in> insert cur (set rest). \<forall>b \<in> insert cur (set rest). (Compare c a b < 0) = (f a < f b)"
      using Cons.prems by simp
    from Cons.IH [OF this] False step show ?thesis by fastforce
  qed
qed

lemma countRun_descending:
  assumes "\<forall>a \<in> insert prev (set rest). \<forall>b \<in> insert prev (set rest). (Compare c a b < 0) = (f a < f b)"
  shows "sorted_wrt (\<lambda>a b. f b < (f a :: int)) (prev # take (countRun c True prev rest) rest)"
  using assms
proof (induction rest arbitrary: prev)
  case Nil
  then show ?case by simp
next
  case (Cons cur rest)
  show ?case
  proof (cases "0 \<le> Compare c cur prev")
    case True
    then show ?thesis by simp
  next
    case False
    with Cons.prems have step: "f cur < f prev" by (simp add: not_le)
    have "\<forall>a \<in> insert cur (set rest). \<forall>b \<in> insert cur (set rest). (Compare c a b < 0) = (f a < f b)"
      using Cons.prems by simp
    from Cons.IH [OF this]
    have tail: "sorted_wrt (\<lambda>a b. f b < f a) (cur # take (countRun c True cur rest) rest)" .
    then have "\<forall>y \<in> set (take (countRun c True cur rest) rest). f y < f prev"
      using step by auto
    with tail step False show ?thesis by simp
  qed
qed

lemma descending_filter_rev:
  assumes "sorted_wrt (\<lambda>a b. f b < (f a :: int)) xs"
  shows "filter (\<lambda>x. f x = v) (rev xs) = filter (\<lambda>x. f x = v) xs"
proof -
  from assms have "length (filter (\<lambda>x. f x = v) xs) \<le> 1"
  proof (induction xs)
    case Nil
    then show ?case by simp
  next
    case (Cons x xs)
    show ?case
    proof (cases "f x = v")
      case True
      with Cons.prems have "filter (\<lambda>x. f x = v) xs = []"
        by (auto simp: filter_empty_conv)
      with True show ?thesis by simp
    next
      case False
      with Cons show ?thesis by simp
    qed
  qed
  then have "rev (filter (\<lambda>x. f x = v) xs) = filter (\<lambda>x. f x = v) xs"
    by (cases "filter (\<lambda>x. f x = v) xs") (auto simp: le_Suc_eq)
  then show ?thesis by (simp add: rev_filter)
qed

lemma CountAndMakeRun_keyed:
  assumes "\<forall>a \<in> set xs. \<forall>b \<in> set xs. (Compare c a b < 0) = (f a < (f b :: int))"
  shows "sorted (map f (fst (CountAndMakeRun c xs)))
       \<and> (\<forall>v. filter (\<lambda>x. f x = v) (fst (CountAndMakeRun c xs) @ snd (CountAndMakeRun c xs))
                = filter (\<lambda>x. f x = v) xs)"
proof (cases xs)
  case Nil
  then show ?thesis by (simp add: CountAndMakeRun_def)
next
  case (Cons hi ys)
  show ?thesis
  proof (cases ys)
    case Nil
    with Cons show ?thesis by (simp add: CountAndMakeRun_def)
  next
    case (Cons lo rest)
    with \<open>xs = hi # ys\<close> have xs: "xs = hi # lo # rest" by simp
    have key: "\<forall>a \<in> insert lo (set rest). \<forall>b \<in> insert lo (set rest). (Compare c a b < 0) = (f a < f b)"
      using assms xs by simp
    show ?thesis
    proof (cases "Compare c lo hi < 0")
      case True
      let ?n = "countRun c True lo rest"
      let ?run = "hi # lo # take ?n rest"
      from True assms xs have "f lo < f hi" by simp
      with countRun_descending [OF key]
      have desc: "sorted_wrt (\<lambda>a b. f b < f a) ?run" by auto
      have parts: "CountAndMakeRun c xs = (rev ?run, drop ?n rest)"
        using True xs by (simp add: CountAndMakeRun_def Let_def)
      from desc have "sorted_wrt (\<lambda>a b. f a < f b) (rev ?run)"
        by (simp only: sorted_wrt_rev)
      then have "sorted_wrt (<) (map f (rev ?run))"
        by (simp only: sorted_wrt_map)
      then have sorted: "sorted (map f (rev ?run))"
        by (rule strict_sorted_imp_sorted)
      have "filter (\<lambda>x. f x = v) (rev ?run @ drop ?n rest) = filter (\<lambda>x. f x = v) xs" for v
      proof -
        have "filter (\<lambda>x. f x = v) (rev ?run @ drop ?n rest)
            = filter (\<lambda>x. f x = v) (rev ?run) @ filter (\<lambda>x. f x = v) (drop ?n rest)"
          by (rule filter_append)
        also have "\<dots> = filter (\<lambda>x. f x = v) ?run @ filter (\<lambda>x. f x = v) (drop ?n rest)"
          by (simp only: descending_filter_rev [OF desc])
        also have "\<dots> = filter (\<lambda>x. f x = v) (?run @ drop ?n rest)"
          by (rule filter_append [symmetric])
        also have "?run @ drop ?n rest = xs"
          using xs by simp
        finally show ?thesis .
      qed
      with sorted show ?thesis
        unfolding parts by simp
    next
      case False
      let ?n = "countRun c False lo rest"
      let ?run = "hi # lo # take ?n rest"
      from False assms xs have "f hi \<le> f lo" by (simp add: not_less)
      with countRun_ascending [OF key]
      have sorted: "sorted (map f ?run)" by fastforce
      have parts: "CountAndMakeRun c xs = (?run, drop ?n rest)"
        using False xs by (simp add: CountAndMakeRun_def Let_def)
      have "?run @ drop ?n rest = xs"
        using xs by simp
      with sorted show ?thesis
        unfolding parts by simp
    qed
  qed
qed

lemma Array_sort_keyed:
  assumes "\<forall>a \<in> set xs. \<forall>b \<in> set xs. (Compare c a b < 0) = (f a < (f b :: int))"
  shows "Array_sort c xs = sort_key f xs"
proof -
  let ?run = "fst (CountAndMakeRun c xs)" and ?rest = "snd (CountAndMakeRun c xs)"
  have result: "Array_sort c xs = BinaryInsertionSort c ?run ?rest"
    by (simp add: Array_sort_def split: prod.splits)
  from CountAndMakeRun_keyed [OF assms]
  have run_sorted: "sorted (map f ?run)"
    and run_stable: "\<forall>v. filter (\<lambda>x. f x = v) (?run @ ?rest) = filter (\<lambda>x. f x = v) xs"
    by simp_all
  have "set_mset (mset ?run + mset ?rest) = set_mset (mset xs)"
    by (simp only: mset_CountAndMakeRun)
  then have elems: "set ?run \<union> set ?rest = set xs" by simp
  have key: "\<forall>a \<in> set ?run \<union> set ?rest. \<forall>b \<in> set ?run \<union> set ?rest.
      (Compare c a b < 0) = (f a < f b)"
    unfolding elems by (rule assms)
  from BinaryInsertionSort_keyed [OF key run_sorted] run_stable
  have sorted: "sorted (map f (Array_sort c xs))"
    and stable: "\<forall>v. filter (\<lambda>x. f x = v) (Array_sort c xs) = filter (\<lambda>x. f x = v) xs"
    unfolding result by simp_all
  have "sort_key f xs = Array_sort c xs"
  proof (rule properties_for_sort_key)
    show "mset (Array_sort c xs) = mset xs" by (rule mset_Array_sort)
    show "sorted (map f (Array_sort c xs))" by (rule sorted)
    fix k
    from stable have "filter (\<lambda>x. f x = f k) (Array_sort c xs) = filter (\<lambda>x. f x = f k) xs"
      by blast
    then show "filter (\<lambda>x. f k = f x) (Array_sort c xs) = filter (\<lambda>x. f k = f x) xs"
      by (simp add: eq_commute)
  qed
  then show ?thesis by simp
qed

lemma Array_sort_descending:
  assumes "list_all (\<lambda>r. getTime (sr_createdAt r) \<noteq> None) xs"
  shows "Array_sort byCreatedAtDescending xs = sort_key (\<lambda>r. - sr_createdAt r) xs"
proof (rule Array_sort_keyed)
  show "\<forall>a \<in> set xs. \<forall>b \<in> set xs.
      (Compare byCreatedAtDescending a b < 0) = (- sr_createdAt a < - sr_createdAt b)"
  proof (intro ballI)
    fix a b
    assume "a \<in> set xs" and "b \<in> set xs"
    with assms have "getTime (sr_createdAt a) = Some (sr_createdAt a)"
      and "getTime (sr_createdAt b) = Some (sr_createdAt b)"
      by (auto simp: list_all_iff getTime_def split: if_splits)
    then show "(Compare byCreatedAtDescending a b < 0) = (- sr_createdAt a < - sr_createdAt b)"
      by (simp add: Compare_def byCreatedAtDescending_def minus_number_def)
  qed
qed

lemma Array_sort_ascending:
  assumes "list_all (\<lambda>c. getTime (c_createdAt c) \<noteq> None) xs"
  shows "Array_sort byCreatedAtAscending xs = sort_key c_createdAt xs"
proof (rule Array_sort_keyed)
  show "\<forall>a \<in> set xs. \<forall>b \<in> set xs.
      (Compare byCreatedAtAscending a b < 0) = (c_createdAt a < c_createdAt b)"
  proof (intro ballI)
    fix a b
    assume "a \<in> set xs" and "b \<in> set xs"
    with assms have "getTime (c_createdAt a) = Some (c_createdAt a)"
      and "getTime (c_createdAt b) = Some (c_createdAt b)"
      by (auto simp: list_all_iff getTime_def split: if_splits)
    then show "(Compare byCreatedAtAscending a b < 0) = (c_createdAt a < c_createdAt b)"
      by (simp add: Compare_def byCreatedAtAscending_def minus_number_def)
  qed
qed

text \<open>Unfolding the sort on a concrete array.\<close>

lemmas sort_eval =
  Array_sort_def CountAndMakeRun_def Compare_def byCreatedAtDescending_def
  byCreatedAtAscending_def minus_number_def getTime_def

section \<open>Evaluating the examples\<close>

lemma eq_char_of_iff: "c = char_of (n :: nat) \<longleftrightarrow> of_char c = take_bit 8 n"
  by (metis char_of_eq_iff)

lemma mixed_store_listing: "getAllServiceRequests mixed_store = [completed_r3, on_hold_r2, pump_record]"
  by (simp add: mixed_store_def one_request_def createServiceRequest_def MemStorage_new_def
      pump_x_def pump_record_def on_hold_r2_def completed_r3_def getAllServiceRequests_def
      map_values_def sort_eval Let_def)

section \<open>Metrics\<close>

lemma status_count_split:
  "length (filter (\<lambda>r. sr_status r = ''new'') xs)
   + length (filter (\<lambda>r. sr_status r = ''inspection'') xs)
   + length (filter (\<lambda>r. sr_status r = ''service'') xs)
   + length (filter (\<lambda>r. sr_status r = ''received'') xs)
   + length (filter (\<lambda>r. sr_status r \<notin> set [''new'', ''inspection'', ''service'', ''received'']) xs)
   = length xs"
  by (induction xs) auto

text \<open>
  C1, as stated, fails: a request created with the status \<open>on-hold\<close> (the status
  column is free text) is active, so \<open>totalActive\<close> is 1, and it is counted by
  none of the four status counters, which sum to 0.
\<close>

theorem metrics_sum_counterexample:
  "newComplaints (getMetrics on_hold_store) + underInspection (getMetrics on_hold_store)
     + sentToService (getMetrics on_hold_store) + received (getMetrics on_hold_store)
   \<noteq> totalActive (getMetrics on_hold_store)"
  by (simp add: on_hold_store_def createServiceRequest_def MemStorage_new_def pump_x_def
      getMetrics_def getActiveServiceRequests_def map_values_def sort_eval Let_def)

text \<open>
  C1, amended. In every store state \<open>totalActive\<close> is the length of the active
  listing, the four counters are the numbers of active requests with status
  \<open>new\<close>, \<open>inspection\<close>, \<open>service\<close> and \<open>received\<close>, no completed request is among
  the counted ones (the active and the completed requests together are all
  requests), and the four counters together with the number of active requests
  whose status is none of the four values make up \<open>totalActive\<close>: they sum to at
  most \<open>totalActive\<close>, and to exactly \<open>totalActive\<close> when every active request has
  one of the four statuses.
\<close>

theorem metrics_counters:
  "totalActive (getMetrics s) = length (getActiveServiceRequests s)
   \<and> newComplaints (getMetrics s)
       = length (filter (\<lambda>r. sr_status r = ''new'') (getActiveServiceRequests s))
   \<and> underInspection (getMetrics s)
       = length (filter (\<lambda>r. sr_status r = ''inspection'') (getActiveServiceRequests s))
   \<and> sentToService (getMetrics s)
       = length (filter (\<lambda>r. sr_status r = ''service'') (getActiveServiceRequests s))
   \<and> received (getMetrics s)
       = length (filter (\<lambda>r. sr_status r = ''received'') (getActiveServiceRequests s))
   \<and> filter (\<lambda>r. sr_status r = ''completed'') (getActiveServiceRequests s) = []
   \<and> totalActive (getMetrics s) + length (getCompletedServiceRequests s)
       = length (getAllServiceRequests s)
   \<and> newComplaints (getMetrics s) + underInspection (getMetrics s)
       + sentToService (getMetrics s) + received (getMetrics s)
       + length (filter (\<lambda>r. sr_status r \<notin> set [''new'', ''inspection'', ''service'', ''received''])
                   (getActiveServiceRequests s))
       = totalActive (getMetrics s)"
proof -
  have no_completed: "filter (\<lambda>r. sr_status r = ''completed'') (getActiveServiceRequests s) = []"
    by (simp add: getActiveServiceRequests_def filter_empty_conv set_Array_sort)
  have total: "length (getActiveServiceRequests s) + length (getCompletedServiceRequests s)
       = length (getAllServiceRequests s)"
    by (simp add: getActiveServiceRequests_def getCompletedServiceRequests_def
        getAllServiceRequests_def length_Array_sort sum_length_filter_compl add.commute)
  from no_completed total status_count_split [of "getActiveServiceRequests s"]
  show ?thesis
    by (simp add: getMetrics_def Let_def)
qed

theorem metrics_counters_witness:
  "totalActive (getMetrics mixed_store) = 2
   \<and> newComplaints (getMetrics mixed_store) = 1
   \<and> underInspection (getMetrics mixed_store) = 0
   \<and> sentToService (getMetrics mixed_store) = 0
   \<and> received (getMetrics mixed_store) = 0
   \<and> length (getCompletedServiceRequests mixed_store) = 1
   \<and> length (getAllServiceRequests mixed_store) = 3
   \<and> length (filter (\<lambda>r. sr_status r \<notin> set [''new'', ''inspection'', ''service'', ''received''])
                (getActiveServiceRequests mixed_store)) = 1"
  using metrics_counters [of mixed_store]
  by (simp add: mixed_store_def one_request_def createServiceRequest_def MemStorage_new_def
      pump_x_def getMetrics_def getActiveServiceRequests_def getCompletedServiceRequests_def
      getAllServiceRequests_def map_values_def sort_eval Let_def)

section \<open>Creation\<close>

text \<open>
  C2, as stated, fails: the insert schema takes any string as \<open>status\<close>. The
  create request with \<open>status: "on-hold"\<close> is accepted with 201, and the stored
  record carries \<open>on-hold\<close>, which is none of the five values.
\<close>

theorem create_status_enumeration_counterexample:
  "POST_service_requests MemStorage_new on_hold_body ''r1'' 1000
     = (on_hold_store, Json 201 on_hold_record)
   \<and> getServiceRequest on_hold_store ''r1'' = Some on_hold_record
   \<and> sr_status on_hold_record
       \<notin> set [''new'', ''inspection'', ''service'', ''received'', ''completed'']"
  by (simp add: POST_service_requests_def insertServiceRequestSchema_parse_def on_hold_body_def
      on_hold_store_def on_hold_record_def createServiceRequest_def MemStorage_new_def
      pump_x_def getServiceRequest_def Let_def)

text \<open>
  C2, amended. \<open>createServiceRequest\<close> stores the record it returns under the new
  id; its status is \<open>new\<close> when the fields omit \<open>status\<close>, and exactly the supplied
  value when they supply a non-empty one, whatever string that is (any string
  passes the schema: a well-formed body whose \<open>status\<close> is a string is accepted
  with that status); its attachments are the empty sequence when the fields omit
  \<open>attachments\<close> (or give \<open>null\<close>), and the supplied sequence otherwise.
\<close>

theorem create_status_and_attachments:
  assumes "createServiceRequest s ins rid now = (s', request)"
  shows "getServiceRequest s' rid = Some request
       \<and> (ins_status ins = None \<longrightarrow> sr_status request = ''new'')
       \<and> (\<forall>st. ins_status ins = Some st \<and> st \<noteq> [] \<longrightarrow> sr_status request = st)
       \<and> (ins_attachments ins = None \<or> ins_attachments ins = Some None
            \<longrightarrow> sr_attachments request = Some [])
       \<and> (\<forall>refs. ins_attachments ins = Some (Some refs)
            \<longrightarrow> sr_attachments request = Some refs)
       \<and> (\<forall>body st.
             list_all (\<lambda>k. is_string (map_get body k))
               [''productName'', ''serialNumber'', ''customerName'', ''customerContact'',
                ''issueDescription'']
             \<and> map_get body ''status'' = Some (JStr st)
             \<and> is_optional_string_array (map_get body ''attachments'')
            \<longrightarrow> (\<exists>v. insertServiceRequestSchema_parse body = Inr v \<and> ins_status v = Some st))"
proof -
  have stored: "getServiceRequest s' rid = Some request"
    using assms
    by (auto simp: createServiceRequest_def getServiceRequest_def Let_def map_get_map_set)
  have status_default: "ins_status ins = None \<longrightarrow> sr_status request = ''new''"
    using assms by (auto simp: createServiceRequest_def Let_def)
  have status_given: "\<forall>st. ins_status ins = Some st \<and> st \<noteq> [] \<longrightarrow> sr_status request = st"
    using assms by (auto simp: createServiceRequest_def Let_def)
  have attachments_default:
    "ins_attachments ins = None \<or> ins_attachments ins = Some None
       \<longrightarrow> sr_attachments request = Some []"
    using assms by (auto simp: createServiceRequest_def Let_def)
  have attachments_given:
    "\<forall>refs. ins_attachments ins = Some (Some refs) \<longrightarrow> sr_attachments request = Some refs"
    using assms by (auto simp: createServiceRequest_def Let_def)
  have schema: "\<forall>body st.
             list_all (\<lambda>k. is_string (map_get body k))
               [''productName'', ''serialNumber'', ''customerName'', ''customerContact'',
                ''issueDescription'']
             \<and> map_get body ''status'' = Some (JStr st)
             \<and> is_optional_string_array (map_get body ''attachments'')
            \<longrightarrow> (\<exists>v. insertServiceRequestSchema_parse body = Inr v \<and> ins_status v = Some st)"
    by (simp add: insertServiceRequestSchema_parse_def Let_def)
  from stored status_default status_given attachments_default attachments_given schema
  show ?thesis by blast
qed

theorem create_status_and_attachments_witness:
  "createServiceRequest MemStorage_new pump_x ''r1'' 1000
     = (one_request, snd (createServiceRequest MemStorage_new pump_x ''r1'' 1000))
   \<and> ins_status pump_x = None
   \<and> ins_attachments pump_x = None
   \<and> sr_status (snd (createServiceRequest MemStorage_new pump_x ''r1'' 1000)) = ''new''
   \<and> sr_attachments (snd (createServiceRequest MemStorage_new pump_x ''r1'' 1000)) = Some []
   \<and> getServiceRequest one_request ''r1''
       = Some (snd (createServiceRequest MemStorage_new pump_x ''r1'' 1000))
   \<and> createServiceRequest MemStorage_new
         (pump_x\<lparr>ins_status := Some ''inspection'', ins_attachments := Some (Some [''ref0''])\<rparr>)
         ''r1'' 1000
       = (fst (createServiceRequest MemStorage_new
                 (pump_x\<lparr>ins_status := Some ''inspection'',
                          ins_attachments := Some (Some [''ref0''])\<rparr>) ''r1'' 1000),
          on_hold_record\<lparr>sr_status := ''inspection'', sr_attachments := Some [''ref0'']\<rparr>)
   \<and> insertServiceRequestSchema_parse on_hold_body
       = Inr (pump_x\<lparr>ins_status := Some ''on-hold''\<rparr>)"
proof -
  have call: "createServiceRequest MemStorage_new pump_x ''r1'' 1000
     = (one_request, snd (createServiceRequest MemStorage_new pump_x ''r1'' 1000))"
    by (simp add: one_request_def)
  have call2: "createServiceRequest MemStorage_new
         (pump_x\<lparr>ins_status := Some ''inspection'', ins_attachments := Some (Some [''ref0''])\<rparr>)
         ''r1'' 1000
       = (fst (createServiceRequest MemStorage_new
                 (pump_x\<lparr>ins_status := Some ''inspection'',
                          ins_attachments := Some (Some [''ref0''])\<rparr>) ''r1'' 1000),
          on_hold_record\<lparr>sr_status := ''inspection'', sr_attachments := Some [''ref0'']\<rparr>)"
    by (simp add: createServiceRequest_def on_hold_record_def pump_x_def Let_def)
  have parsed: "insertServiceRequestSchema_parse on_hold_body
       = Inr (pump_x\<lparr>ins_status := Some ''on-hold''\<rparr>)"
    by (simp add: insertServiceRequestSchema_parse_def on_hold_body_def pump_x_def Let_def)
  have accepted: "list_all (\<lambda>k. is_string (map_get on_hold_body k))
               [''productName'', ''serialNumber'', ''customerName'', ''customerContact'',
                ''issueDescription'']
             \<and> map_get on_hold_body ''status'' = Some (JStr ''on-hold'')
             \<and> is_optional_string_array (map_get on_hold_body ''attachments'')"
    by (simp add: on_hold_body_def)
  from create_status_and_attachments [OF call] create_status_and_attachments [OF call2]
    call call2 parsed accepted
  show ?thesis
    by (simp add: pump_x_def)
qed

lemma create_empty_status:
  "sr_status (snd (createServiceRequest s (ins\<lparr>ins_status := Some []\<rparr>) rid now)) = ''new''"
  by (simp add: createServiceRequest_def Let_def)

section \<open>Updates\<close>

lemma update_present:
  assumes "getServiceRequest s rid = Some existing"
  shows "updateServiceRequest s rid updates now =
           (s\<lparr>serviceRequests :=
                map_set rid ((spread existing updates)\<lparr>sr_updatedAt := now\<rparr>) (serviceRequests s)\<rparr>,
            Some ((spread existing updates)\<lparr>sr_updatedAt := now\<rparr>))"
  using assms by (simp add: getServiceRequest_def updateServiceRequest_def Let_def)






text \<open>
  C6. When the id is not a key of the store, \<open>updateServiceRequest\<close> returns the
  not-found signal (\<open>undefined\<close>), the PATCH handler answers 404, and the store
  after the call is the store before it: every record and every comment is
  unchanged.
\<close>

theorem update_absent_id_unchanged:
  assumes "getServiceRequest s rid = None"
  shows "updateServiceRequest s rid updates now = (s, None)
       \<and> PATCH_service_request s rid updates now = (s, Error 404 ''Service request not found'')"
  using assms
  by (simp add: getServiceRequest_def updateServiceRequest_def PATCH_service_request_def)

theorem update_absent_id_unchanged_witness:
  "getServiceRequest one_request ''r2'' = None
   \<and> updateServiceRequest one_request ''r2'' (no_updates\<lparr>upd_status := Some ''completed''\<rparr>) 2000
       = (one_request, None)
   \<and> PATCH_service_request one_request ''r2'' (no_updates\<lparr>upd_status := Some ''completed''\<rparr>) 2000
       = (one_request, Error 404 ''Service request not found'')"
proof -
  have absent: "getServiceRequest one_request ''r2'' = None"
    by (simp add: one_request_def createServiceRequest_def MemStorage_new_def
        getServiceRequest_def Let_def)
  from update_absent_id_unchanged [OF absent] absent show ?thesis
    by simp
qed

section \<open>Comments\<close>

lemma Comment_toJSON_no_attachments: "map_get (Comment_toJSON comment) ''attachments'' = None"
  by (simp add: Comment_toJSON_def)

text \<open>
  C4 fails on the code: the \<open>comments\<close> table has no \<open>attachments\<close> column, and
  the insert schema drops the key. The client's request \<open>{text, attachments}\<close>
  is answered with 201 and a comment of four fields; the comment that
  the listing returns afterwards has no \<open>attachments\<close> either, neither the
  supplied references nor an empty default.
\<close>

theorem comment_attachments_dropped:
  "snd (POST_comments one_request ''r1'' photo_comment_body ''c1'' 3000) = Json 201 photo_comment
   \<and> GET_comments (fst (POST_comments one_request ''r1'' photo_comment_body ''c1'' 3000)) ''r1''
       = Json 200 [photo_comment]
   \<and> map fst (Comment_toJSON photo_comment) = [''serviceRequestId'', ''text'', ''id'', ''createdAt'']
   \<and> map_get (Comment_toJSON photo_comment) ''attachments'' = None"
  by (simp add: POST_comments_def GET_comments_def insertCommentSchema_parse_def
      photo_comment_body_def photo_comment_def createComment_def one_request_def
      createServiceRequest_def MemStorage_new_def getCommentsByServiceRequestId_def
      map_values_def Comment_toJSON_def sort_eval Let_def)

section \<open>Listings\<close>

lemma sorted_desc_sort_key:
  fixes f :: "'a \<Rightarrow> int"
  shows "sorted (rev (map f (sort_key (\<lambda>x. - f x) xs)))"
proof -
  have "sorted (map (\<lambda>x. - f x) (sort_key (\<lambda>x. - f x) xs))"
    by (rule sorted_sort_key)
  then have "sorted_wrt (\<lambda>a b. f b \<le> f a) (sort_key (\<lambda>x. - f x) xs)"
    by (simp add: sorted_map)
  then show ?thesis
    by (simp add: sorted_wrt_rev sorted_wrt_map)
qed

text \<open>With valid dates throughout, each listing is the stable sort of its records.\<close>

lemma listings_valid_dates:
  assumes "requests_dated s"
  shows "getAllServiceRequests s
           = sort_key (\<lambda>r. - sr_createdAt r) (map_values (serviceRequests s))"
    and "getActiveServiceRequests s
           = sort_key (\<lambda>r. - sr_createdAt r)
               (filter (\<lambda>r. sr_status r \<noteq> ''completed'') (map_values (serviceRequests s)))"
    and "getCompletedServiceRequests s
           = sort_key (\<lambda>r. - sr_createdAt r)
               (filter (\<lambda>r. sr_status r = ''completed'') (map_values (serviceRequests s)))"
    and "searchServiceRequests s q
           = sort_key (\<lambda>r. - sr_createdAt r)
               (filter
                  (\<lambda>request.
                     includes_str (toLowerCase (sr_customerContact request)) (toLowerCase q) \<or>
                     includes_str (toLowerCase (sr_serialNumber request)) (toLowerCase q) \<or>
                     includes_str (toLowerCase (sr_customerName request)) (toLowerCase q) \<or>
                     includes_str (toLowerCase (sr_productName request)) (toLowerCase q))
                  (map_values (serviceRequests s)))"
proof -
  have valid: "list_all (\<lambda>r. getTime (sr_createdAt r) \<noteq> None)
      (filter P (map_values (serviceRequests s)))" for P
    using assms by (simp add: requests_dated_def list_all_iff)
  from assms show "getAllServiceRequests s
      = sort_key (\<lambda>r. - sr_createdAt r) (map_values (serviceRequests s))"
    unfolding getAllServiceRequests_def requests_dated_def by (rule Array_sort_descending)
  show "getActiveServiceRequests s
      = sort_key (\<lambda>r. - sr_createdAt r)
          (filter (\<lambda>r. sr_status r \<noteq> ''completed'') (map_values (serviceRequests s)))"
    unfolding getActiveServiceRequests_def by (rule Array_sort_descending [OF valid])
  show "getCompletedServiceRequests s
      = sort_key (\<lambda>r. - sr_createdAt r)
          (filter (\<lambda>r. sr_status r = ''completed'') (map_values (serviceRequests s)))"
    unfolding getCompletedServiceRequests_def by (rule Array_sort_descending [OF valid])
  show "searchServiceRequests s q
      = sort_key (\<lambda>r. - sr_createdAt r)
          (filter
             (\<lambda>request.
                includes_str (toLowerCase (sr_customerContact request)) (toLowerCase q) \<or>
                includes_str (toLowerCase (sr_serialNumber request)) (toLowerCase q) \<or>
                includes_str (toLowerCase (sr_customerName request)) (toLowerCase q) \<or>
                includes_str (toLowerCase (sr_productName request)) (toLowerCase q))
             (map_values (serviceRequests s)))"
    unfolding searchServiceRequests_def Let_def by (rule Array_sort_descending [OF valid])
qed

text \<open>
  C5. In every store state (so in every state that creates and updates can
  reach) the active and the completed listing partition the full listing: no
  record is in both, together they hold each record of \<open>getAllServiceRequests\<close>
  exactly as often as it occurs there, the active listing holds exactly the
  records of the full listing with a status other than \<open>completed\<close> and the
  completed listing exactly those with status \<open>completed\<close>; and when every
  stored \<open>createdAt\<close> is a valid date they also come in the order of the full
  listing.
\<close>

theorem active_completed_partition:
  "set (getActiveServiceRequests s) \<inter> set (getCompletedServiceRequests s) = {}
   \<and> mset (getActiveServiceRequests s) + mset (getCompletedServiceRequests s)
       = mset (getAllServiceRequests s)
   \<and> mset (getActiveServiceRequests s)
       = filter_mset (\<lambda>r. sr_status r \<noteq> ''completed'') (mset (getAllServiceRequests s))
   \<and> mset (getCompletedServiceRequests s)
       = filter_mset (\<lambda>r. sr_status r = ''completed'') (mset (getAllServiceRequests s))
   \<and> (requests_dated s \<longrightarrow>
        getActiveServiceRequests s
          = filter (\<lambda>r. sr_status r \<noteq> ''completed'') (getAllServiceRequests s)
        \<and> getCompletedServiceRequests s
          = filter (\<lambda>r. sr_status r = ''completed'') (getAllServiceRequests s))"
proof -
  have disjoint: "set (getActiveServiceRequests s) \<inter> set (getCompletedServiceRequests s) = {}"
    by (auto simp: getActiveServiceRequests_def getCompletedServiceRequests_def set_Array_sort)
  have active: "mset (getActiveServiceRequests s)
       = filter_mset (\<lambda>r. sr_status r \<noteq> ''completed'') (mset (getAllServiceRequests s))"
    by (simp add: getActiveServiceRequests_def getAllServiceRequests_def mset_Array_sort)
  have completed: "mset (getCompletedServiceRequests s)
       = filter_mset (\<lambda>r. sr_status r = ''completed'') (mset (getAllServiceRequests s))"
    by (simp add: getCompletedServiceRequests_def getAllServiceRequests_def mset_Array_sort)
  have cover: "mset (getActiveServiceRequests s) + mset (getCompletedServiceRequests s)
       = mset (getAllServiceRequests s)"
    unfolding active completed by (simp add: add.commute)
  have ordered: "requests_dated s \<longrightarrow>
        getActiveServiceRequests s
          = filter (\<lambda>r. sr_status r \<noteq> ''completed'') (getAllServiceRequests s)
        \<and> getCompletedServiceRequests s
          = filter (\<lambda>r. sr_status r = ''completed'') (getAllServiceRequests s)"
    by (simp add: listings_valid_dates filter_sort)
  from disjoint cover active completed ordered show ?thesis by simp
qed

theorem active_completed_partition_witness:
  "requests_dated mixed_store
   \<and> getAllServiceRequests mixed_store = [completed_r3, on_hold_r2, pump_record]
   \<and> getActiveServiceRequests mixed_store = [on_hold_r2, pump_record]
   \<and> getCompletedServiceRequests mixed_store = [completed_r3]"
proof -
  have dated: "requests_dated mixed_store"
    by (simp add: requests_dated_def mixed_store_def one_request_def createServiceRequest_def
        MemStorage_new_def map_values_def getTime_def Let_def)
  from active_completed_partition [of mixed_store] dated show ?thesis
    by (simp add: mixed_store_listing pump_record_def on_hold_r2_def completed_r3_def)
qed

text \<open>
  With valid dates: \<open>getCommentsByServiceRequestId\<close> returns the comments of the
  request with \<open>createdAt\<close> ascending, and the four request listings return
  their records with \<open>createdAt\<close> descending (read backwards they ascend). The
  comments returned are, whatever the dates, each stored comment with that
  \<open>serviceRequestId\<close>, as often as it is stored.
\<close>

lemma listing_orders_valid_dates:
  "(comments_dated s \<longrightarrow> sorted (map c_createdAt (getCommentsByServiceRequestId s rid)))
   \<and> mset (getCommentsByServiceRequestId s rid)
       = filter_mset (\<lambda>c. c_serviceRequestId c = rid) (mset (map_values (comments s)))
   \<and> (requests_dated s \<longrightarrow>
        sorted (rev (map sr_createdAt (getAllServiceRequests s)))
        \<and> sorted (rev (map sr_createdAt (getActiveServiceRequests s)))
        \<and> sorted (rev (map sr_createdAt (getCompletedServiceRequests s)))
        \<and> sorted (rev (map sr_createdAt (searchServiceRequests s q))))"
proof -
  have comments: "comments_dated s \<longrightarrow>
      sorted (map c_createdAt (getCommentsByServiceRequestId s rid))"
  proof
    assume "comments_dated s"
    then have "list_all (\<lambda>c. getTime (c_createdAt c) \<noteq> None)
        (filter (\<lambda>comment. c_serviceRequestId comment = rid) (map_values (comments s)))"
      by (simp add: comments_dated_def list_all_iff)
    then show "sorted (map c_createdAt (getCommentsByServiceRequestId s rid))"
      by (simp add: getCommentsByServiceRequestId_def Array_sort_ascending)
  qed
  have all: "mset (getCommentsByServiceRequestId s rid)
       = filter_mset (\<lambda>c. c_serviceRequestId c = rid) (mset (map_values (comments s)))"
    by (simp add: getCommentsByServiceRequestId_def mset_Array_sort)
  have requests: "requests_dated s \<longrightarrow>
        sorted (rev (map sr_createdAt (getAllServiceRequests s)))
        \<and> sorted (rev (map sr_createdAt (getActiveServiceRequests s)))
        \<and> sorted (rev (map sr_createdAt (getCompletedServiceRequests s)))
        \<and> sorted (rev (map sr_createdAt (searchServiceRequests s q)))"
    by (simp add: listings_valid_dates sorted_desc_sort_key)
  from comments all requests show ?thesis by simp
qed

lemma listing_orders_example:
  "comments_dated three_comments \<and> requests_dated three_comments
   \<and> map c_text (getCommentsByServiceRequestId three_comments ''r1'') = [''first'', ''third'']
   \<and> map c_createdAt (getCommentsByServiceRequestId three_comments ''r1'') = [3010, 3030]
   \<and> map sr_createdAt (getAllServiceRequests three_comments) = [3000, 2000, 1000]
   \<and> map sr_createdAt (getActiveServiceRequests three_comments) = [2000, 1000]
   \<and> map sr_createdAt (getCompletedServiceRequests three_comments) = [3000]
   \<and> map sr_createdAt (searchServiceRequests three_comments ''ACME'') = [3000, 2000, 1000]"
proof -
  have requests: "serviceRequests three_comments
      = [(''r1'', pump_record), (''r2'', on_hold_r2), (''r3'', completed_r3)]"
    by (simp add: three_comments_def createComment_def mixed_store_def one_request_def
        createServiceRequest_def MemStorage_new_def pump_x_def pump_record_def on_hold_r2_def
        completed_r3_def Let_def)
  have stored: "comments three_comments
      = [(''c3'', \<lparr>c_id = ''c3'', c_serviceRequestId = ''r1'', c_text = ''third'', c_createdAt = 3030\<rparr>),
         (''c0'', \<lparr>c_id = ''c0'', c_serviceRequestId = ''r2'', c_text = ''other'', c_createdAt = 3015\<rparr>),
         (''c1'', \<lparr>c_id = ''c1'', c_serviceRequestId = ''r1'', c_text = ''first'', c_createdAt = 3010\<rparr>)]"
    by (simp add: three_comments_def createComment_def mixed_store_def one_request_def
        createServiceRequest_def MemStorage_new_def Let_def)
  have dated: "comments_dated three_comments \<and> requests_dated three_comments"
    by (simp add: comments_dated_def requests_dated_def requests stored map_values_def
        getTime_def pump_record_def on_hold_r2_def completed_r3_def)
  have comments: "getCommentsByServiceRequestId three_comments ''r1''
      = [\<lparr>c_id = ''c1'', c_serviceRequestId = ''r1'', c_text = ''first'', c_createdAt = 3010\<rparr>,
         \<lparr>c_id = ''c3'', c_serviceRequestId = ''r1'', c_text = ''third'', c_createdAt = 3030\<rparr>]"
    by (simp add: getCommentsByServiceRequestId_def stored map_values_def sort_eval)
  have listed: "getAllServiceRequests three_comments = [completed_r3, on_hold_r2, pump_record]"
    by (simp add: getAllServiceRequests_def requests map_values_def pump_record_def
        on_hold_r2_def completed_r3_def sort_eval)
  have active: "getActiveServiceRequests three_comments = [on_hold_r2, pump_record]"
    by (simp add: getActiveServiceRequests_def requests map_values_def pump_record_def
        on_hold_r2_def completed_r3_def sort_eval)
  have completed: "getCompletedServiceRequests three_comments = [completed_r3]"
    by (simp add: getCompletedServiceRequests_def requests map_values_def pump_record_def
        on_hold_r2_def completed_r3_def sort_eval)
  have found: "searchServiceRequests three_comments ''ACME'' = [completed_r3, on_hold_r2, pump_record]"
    by (simp add: searchServiceRequests_def requests map_values_def pump_record_def
        on_hold_r2_def completed_r3_def toLowerCase_def toLower_def char_of_eq_iff
        eq_char_of_iff sort_eval Let_def)
  from listing_orders_valid_dates [of three_comments "''r1''" "''ACME''"]
    dated comments listed active completed found
  show ?thesis
    by (simp add: pump_record_def on_hold_r2_def completed_r3_def)
qed

text \<open>
  C8 fails on the code, for the request listings of the in-memory store, once a
  stored \<open>createdAt\<close> is not a valid date. After an update of the second of three
  requests with a \<open>createdAt\<close> of 1e16 milliseconds the comparator yields NaN
  for every pair with that record, the sort leaves the array as it is, and the
  listing (as well as the search that finds all three) returns the request
  created at 1000 before the one created at 3000: oldest first, not newest
  first.
\<close>

theorem listing_not_newest_first:
  "getAllServiceRequests far_future_store
     = [pump_record,
        on_hold_r2\<lparr>sr_createdAt := 10000000000000000, sr_updatedAt := 3500\<rparr>,
        completed_r3]
   \<and> searchServiceRequests far_future_store ''acme''
       = getAllServiceRequests far_future_store
   \<and> sr_createdAt pump_record < sr_createdAt completed_r3
   \<and> \<not> sorted (rev (map sr_createdAt (getAllServiceRequests far_future_store)))"
proof -
  have requests: "serviceRequests far_future_store
      = [(''r1'', pump_record),
         (''r2'', on_hold_r2\<lparr>sr_createdAt := 10000000000000000, sr_updatedAt := 3500\<rparr>),
         (''r3'', completed_r3)]"
    by (simp add: far_future_store_def mixed_store_def one_request_def
        createServiceRequest_def MemStorage_new_def updateServiceRequest_def spread_def
        no_updates_def pump_x_def pump_record_def on_hold_r2_def completed_r3_def Let_def)
  have listed: "getAllServiceRequests far_future_store
     = [pump_record,
        on_hold_r2\<lparr>sr_createdAt := 10000000000000000, sr_updatedAt := 3500\<rparr>,
        completed_r3]"
    by (simp add: getAllServiceRequests_def requests map_values_def pump_record_def
        on_hold_r2_def completed_r3_def sort_eval)
  have found: "searchServiceRequests far_future_store ''acme''
     = [pump_record,
        on_hold_r2\<lparr>sr_createdAt := 10000000000000000, sr_updatedAt := 3500\<rparr>,
        completed_r3]"
    by (simp add: searchServiceRequests_def requests map_values_def pump_record_def
        on_hold_r2_def completed_r3_def toLowerCase_def toLower_def char_of_eq_iff
        eq_char_of_iff sort_eval Let_def)
  from listed found show ?thesis
    by (simp add: pump_record_def on_hold_r2_def completed_r3_def)
qed

section \<open>Search\<close>

lemma startsWith_iff: "startsWith x q \<longleftrightarrow> (\<exists>suf. x = q @ suf)"
  by (induction x q rule: startsWith.induct) auto

lemma includes_str_iff: "includes_str x q \<longleftrightarrow> (\<exists>pre suf. x = pre @ q @ suf)"
proof (induction x)
  case Nil
  then show ?case by auto
next
  case (Cons c cs)
  have "(\<exists>pre suf. c # cs = pre @ q @ suf)
      \<longleftrightarrow> (\<exists>suf. c # cs = q @ suf) \<or> (\<exists>pre suf. cs = pre @ q @ suf)"
    by (auto simp: Cons_eq_append_conv)
  with Cons show ?case
    by (simp add: startsWith_iff)
qed

lemma ci_substring_iff: "ci_substring q field \<longleftrightarrow> includes_str (toLowerCase field) (toLowerCase q)"
proof
  assume "ci_substring q field"
  then obtain pre mid suf where "field = pre @ mid @ suf" and "toLowerCase mid = toLowerCase q"
    by (auto simp: ci_substring_def)
  then have "toLowerCase field = toLowerCase pre @ toLowerCase q @ toLowerCase suf"
    by (simp add: toLowerCase_def)
  then show "includes_str (toLowerCase field) (toLowerCase q)"
    unfolding includes_str_iff by blast
next
  assume "includes_str (toLowerCase field) (toLowerCase q)"
  then obtain pre suf where "map toLower field = pre @ map toLower q @ suf"
    unfolding includes_str_iff toLowerCase_def by blast
  then obtain a rest where field: "field = a @ rest" and rest: "map toLower rest = map toLower q @ suf"
    by (metis map_eq_append_conv)
  from rest obtain b c where "rest = b @ c" and "map toLower b = map toLower q"
    by (metis map_eq_append_conv)
  with field show "ci_substring q field"
    by (auto simp: ci_substring_def toLowerCase_def)
qed

lemma MemStorage_search_iff:
  "r \<in> set (searchServiceRequests s q)
     \<longleftrightarrow> r \<in> set (map_values (serviceRequests s)) \<and> search_spec q r"
  by (auto simp: searchServiceRequests_def search_spec_def ci_substring_iff set_Array_sort
      Let_def)

text \<open>
  C7 holds for \<open>MemStorage\<close> (lemma \<open>MemStorage_search_iff\<close>) and fails for
  \<open>DatabaseStorage\<close>: the query goes into the \<open>ILIKE\<close> pattern as it is, so its
  \<open>_\<close> and \<open>%\<close> are wildcards. For the query \<open>_\<close> the pattern is \<open>%_%\<close>; the row
  of the worked example is returned although none of its four fields contains an
  underscore, and the in-memory store, searching literally, returns nothing.
\<close>

theorem DatabaseStorage_search_wildcard:
  "DatabaseStorage_searchServiceRequests [pump_record] ''_'' = [pump_record]
   \<and> \<not> search_spec ''_'' pump_record
   \<and> getAllServiceRequests one_request = [pump_record]
   \<and> searchServiceRequests one_request ''_'' = []"
proof -
  have db: "DatabaseStorage_searchServiceRequests [pump_record] ''_'' = [pump_record]"
    by (simp add: DatabaseStorage_searchServiceRequests_def ilike_def toLowerCase_def
        toLower_def char_of_eq_iff pump_record_def)
  have spec: "\<not> search_spec ''_'' pump_record"
    by (simp add: search_spec_def ci_substring_iff toLowerCase_def toLower_def char_of_eq_iff pump_record_def)
  have stored: "getAllServiceRequests one_request = [pump_record]"
    by (simp add: getAllServiceRequests_def one_request_def createServiceRequest_def
        MemStorage_new_def pump_x_def pump_record_def map_values_def sort_eval Let_def)
  have mem: "searchServiceRequests one_request ''_'' = []"
    by (simp add: searchServiceRequests_def one_request_def createServiceRequest_def
        MemStorage_new_def pump_x_def map_values_def toLowerCase_def toLower_def
        char_of_eq_iff sort_eval Let_def)
  from db spec stored mem show ?thesis by simp
qed





section \<open>Well keyed stores\<close>

lemma new_store_keyed: "keys_match_ids MemStorage_new"
  by (simp add: keys_match_ids_def MemStorage_new_def)

lemma create_keeps_keys:
  assumes "keys_match_ids s"
  shows "keys_match_ids (fst (createServiceRequest s ins rid now))"
proof -
  let ?r = "snd (createServiceRequest s ins rid now)"
  have id: "sr_id ?r = rid"
    by (simp add: createServiceRequest_def Let_def)
  have store: "serviceRequests (fst (createServiceRequest s ins rid now))
      = map_set rid ?r (serviceRequests s)"
    by (simp add: createServiceRequest_def Let_def)
  from assms id set_map_set [of rid ?r "serviceRequests s"] show ?thesis
    unfolding keys_match_ids_def store
    by (auto simp: list_all_iff keys_map_set)
qed

lemma update_keeps_keys:
  assumes "keys_match_ids s" and "upd_id updates = None"
  shows "keys_match_ids (fst (updateServiceRequest s rid updates now))"
proof (cases "getServiceRequest s rid")
  case None
  with assms(1) show ?thesis
    by (simp add: getServiceRequest_def updateServiceRequest_def)
next
  case (Some r)
  let ?r = "(spread r updates)\<lparr>sr_updatedAt := now\<rparr>"
  from Some have stored: "(rid, r) \<in> set (serviceRequests s)"
    by (simp add: getServiceRequest_def map_get_Some_mem)
  with assms(1) have "sr_id r = rid"
    by (auto simp: keys_match_ids_def list_all_iff)
  with assms(2) have id: "sr_id ?r = rid"
    by (simp add: spread_def)
  from stored have key: "rid \<in> fst ` set (serviceRequests s)"
    by force
  have store: "serviceRequests (fst (updateServiceRequest s rid updates now))
      = map_set rid ?r (serviceRequests s)"
    by (simp add: update_present [OF Some])
  from assms(1) id key set_map_set [of rid ?r "serviceRequests s"] show ?thesis
    unfolding keys_match_ids_def store
    by (auto simp: list_all_iff keys_map_set)
qed

section \<open>Appending attachments\<close>

lemma find_by_id:
  assumes "keys_match_ids s" and "getServiceRequest s rid = Some r"
  shows "find (\<lambda>x. sr_id x = rid) (getAllServiceRequests s) = Some r"
proof (rule find_the_only)
  from assms(2) have stored: "(rid, r) \<in> set (serviceRequests s)"
    by (simp add: getServiceRequest_def map_get_Some_mem)
  then show "r \<in> set (getAllServiceRequests s)"
    by (force simp: getAllServiceRequests_def map_values_def set_Array_sort)
  from assms(1) stored show "sr_id r = rid"
    by (auto simp: keys_match_ids_def list_all_iff)
  show "\<forall>x \<in> set (getAllServiceRequests s). sr_id x = rid \<longrightarrow> x = r"
  proof (intro ballI impI)
    fix x
    assume "x \<in> set (getAllServiceRequests s)" and x_id: "sr_id x = rid"
    then obtain k where "(k, x) \<in> set (serviceRequests s)"
      by (auto simp: getAllServiceRequests_def map_values_def set_Array_sort)
    with assms(1) x_id have "(rid, x) \<in> set (serviceRequests s)"
      by (auto simp: keys_match_ids_def list_all_iff)
    with assms(1) stored show "x = r"
      by (auto simp: keys_match_ids_def dest: eq_key_imp_eq_value)
  qed
qed

lemma append_call:
  assumes "keys_match_ids s" and "getServiceRequest s rid = Some r"
  shows "POST_attachments s rid (Some refs) now =
           (s\<lparr>serviceRequests :=
                map_set rid
                  (r\<lparr>sr_attachments := Some (attachments_or_empty r @ refs),
                     sr_updatedAt := now\<rparr>)
                  (serviceRequests s)\<rparr>,
            Json 200
              (Some (r\<lparr>sr_attachments := Some (attachments_or_empty r @ refs),
                       sr_updatedAt := now\<rparr>)))"
proof -
  have merged: "(spread r (no_updates\<lparr>upd_attachments := Some (Some (attachments_or_empty r @ refs))\<rparr>))
                  \<lparr>sr_updatedAt := now\<rparr>
      = r\<lparr>sr_attachments := Some (attachments_or_empty r @ refs), sr_updatedAt := now\<rparr>"
    by (simp add: spread_def no_updates_def)
  have found: "find (\<lambda>x. sr_id x = rid) (getAllServiceRequests s) = Some r"
    by (rule find_by_id [OF assms])
  have written: "updateServiceRequest s rid
        (no_updates\<lparr>upd_attachments := Some (Some (attachments_or_empty r @ refs))\<rparr>) now
      = (s\<lparr>serviceRequests :=
             map_set rid
               (r\<lparr>sr_attachments := Some (attachments_or_empty r @ refs), sr_updatedAt := now\<rparr>)
               (serviceRequests s)\<rparr>,
         Some (r\<lparr>sr_attachments := Some (attachments_or_empty r @ refs), sr_updatedAt := now\<rparr>))"
    unfolding update_present [OF assms(2)] merged by (rule refl)
  show ?thesis
    unfolding POST_attachments_def by (simp add: found written Let_def)
qed

lemma append_call_keeps_keys:
  assumes "keys_match_ids s" and "getServiceRequest s rid = Some r"
  shows "keys_match_ids (fst (POST_attachments s rid (Some refs) now))"
proof -
  from assms(2) have stored: "(rid, r) \<in> set (serviceRequests s)"
    by (simp add: getServiceRequest_def map_get_Some_mem)
  with assms(1) have id: "sr_id r = rid"
    by (auto simp: keys_match_ids_def list_all_iff)
  from stored have key: "rid \<in> fst ` set (serviceRequests s)"
    by force
  from assms(1) id key
    set_map_set [of rid "r\<lparr>sr_attachments := Some (attachments_or_empty r @ refs),
                          sr_updatedAt := now\<rparr>" "serviceRequests s"]
  show ?thesis
    unfolding append_call [OF assms]
    by (auto simp: keys_match_ids_def list_all_iff keys_map_set)
qed

text \<open>
  In a well keyed store (every record stored under its own \<open>id\<close>, keys
  distinct: the stores that creations, appends and updates without an \<open>id\<close>
  key produce), an attachment-append call for a stored record answers 200 with,
  and writes back under the same key, that record with the new references put
  after its existing attachment list (nothing reordered, dropped or
  de-duplicated) and \<open>updatedAt\<close> stamped; after a run of such calls, one after
  the other, the record's attachments are the original list followed by the
  references of all calls in call order.
\<close>

lemma attachment_appends_concatenate:
  assumes "keys_match_ids s" and "getServiceRequest s rid = Some r"
  shows "POST_attachments s rid (Some refs) now =
           (s\<lparr>serviceRequests :=
                map_set rid
                  (r\<lparr>sr_attachments := Some (attachments_or_empty r @ refs),
                     sr_updatedAt := now\<rparr>)
                  (serviceRequests s)\<rparr>,
            Json 200
              (Some (r\<lparr>sr_attachments := Some (attachments_or_empty r @ refs),
                       sr_updatedAt := now\<rparr>)))
       \<and> (\<exists>r'. getServiceRequest (append_calls s rid calls) rid = Some r'
              \<and> attachments_or_empty r' = attachments_or_empty r @ concat (map fst calls))"
proof -
  have run: "\<exists>r'. getServiceRequest (append_calls s rid calls) rid = Some r'
              \<and> attachments_or_empty r' = attachments_or_empty r @ concat (map fst calls)"
    using assms
  proof (induction calls arbitrary: s r)
    case Nil
    then show ?case by simp
  next
    case (Cons call calls)
    obtain new now' where call: "call = (new, now')"
      by (cases call) auto
    let ?r1 = "r\<lparr>sr_attachments := Some (attachments_or_empty r @ new), sr_updatedAt := now'\<rparr>"
    let ?s1 = "fst (POST_attachments s rid (Some new) now')"
    have keyed: "keys_match_ids ?s1"
      by (rule append_call_keeps_keys [OF Cons.prems])
    have stored: "getServiceRequest ?s1 rid = Some ?r1"
      unfolding append_call [OF Cons.prems]
      by (simp add: getServiceRequest_def map_get_map_set)
    from Cons.IH [OF keyed stored] call show ?case
      by (simp add: attachments_or_empty_def)
  qed
  from append_call [OF assms] run show ?thesis by blast
qed

lemma attachment_appends_concatenate_example:
  "keys_match_ids inspected_request
   \<and> getServiceRequest inspected_request ''r1''
       = Some (pump_record\<lparr>sr_status := ''inspection'', sr_updatedAt := 1500\<rparr>)
   \<and> snd (POST_attachments inspected_request ''r1'' (Some [''ref1'']) 2000)
       = Json 200 (Some (pump_record\<lparr>sr_status := ''inspection'',
                                      sr_attachments := Some [''ref1''], sr_updatedAt := 2000\<rparr>))
   \<and> getServiceRequest
         (append_calls inspected_request ''r1'' [([''ref1''], 2000), ([''ref2''], 3000)]) ''r1''
       = Some (pump_record\<lparr>sr_status := ''inspection'',
                            sr_attachments := Some [''ref1'', ''ref2''], sr_updatedAt := 3000\<rparr>)"
proof -
  have store: "inspected_request =
      \<lparr>serviceRequests = [(''r1'', pump_record\<lparr>sr_status := ''inspection'', sr_updatedAt := 1500\<rparr>)],
       comments = []\<rparr>"
    by (simp add: inspected_request_def one_request_def createServiceRequest_def
        MemStorage_new_def pump_x_def pump_record_def updateServiceRequest_def spread_def
        no_updates_def Let_def)
  have keyed: "keys_match_ids inspected_request"
    by (simp add: store keys_match_ids_def pump_record_def)
  have stored: "getServiceRequest inspected_request ''r1''
       = Some (pump_record\<lparr>sr_status := ''inspection'', sr_updatedAt := 1500\<rparr>)"
    by (simp add: store getServiceRequest_def)
  have final: "getServiceRequest
         (append_calls inspected_request ''r1'' [([''ref1''], 2000), ([''ref2''], 3000)]) ''r1''
       = Some (pump_record\<lparr>sr_status := ''inspection'',
                            sr_attachments := Some [''ref1'', ''ref2''], sr_updatedAt := 3000\<rparr>)"
    by (simp add: store POST_attachments_def getAllServiceRequests_def map_values_def
        updateServiceRequest_def spread_def no_updates_def getServiceRequest_def
        attachments_or_empty_def pump_record_def sort_eval Let_def)
  from attachment_appends_concatenate [OF keyed stored, of "[''ref1'']" 2000
      "[([''ref1''], 2000), ([''ref2''], 3000)]"] keyed stored final
  show ?thesis
    by (simp add: attachments_or_empty_def pump_record_def)
qed

text \<open>
  C9 fails on the code, with the in-memory store, for a record whose \<open>id\<close> an
  earlier update has overwritten: the handler finds the record by its \<open>id\<close>
  field and writes by key. The record stored under \<open>r1\<close> with \<open>id\<close> \<open>r2\<close> and no
  attachments is found by the append call for \<open>r2\<close>, the write to the key \<open>r2\<close>
  finds nothing, and the call answers 200 with no record and leaves the store
  as it was (the PATCH handler answers 404 when the same write finds nothing);
  the call for \<open>r1\<close> answers 404, although a record is stored under that key. The
  reference is appended by neither call.
\<close>

theorem append_after_id_overwrite:
  "getServiceRequest renamed_request ''r1''
     = Some (pump_record\<lparr>sr_id := ''r2'', sr_updatedAt := 1500\<rparr>)
   \<and> POST_attachments renamed_request ''r2'' (Some [''ref1'']) 2000
       = (renamed_request, Json 200 None)
   \<and> PATCH_service_request renamed_request ''r2''
         (no_updates\<lparr>upd_attachments := Some (Some [''ref1''])\<rparr>) 2000
       = (renamed_request, Error 404 ''Service request not found'')
   \<and> POST_attachments renamed_request ''r1'' (Some [''ref1'']) 2000
       = (renamed_request, Error 404 ''Service request not found'')"
proof -
  have store: "renamed_request =
      \<lparr>serviceRequests = [(''r1'', pump_record\<lparr>sr_id := ''r2'', sr_updatedAt := 1500\<rparr>)],
       comments = []\<rparr>"
    by (simp add: renamed_request_def one_request_def createServiceRequest_def
        MemStorage_new_def pump_x_def pump_record_def updateServiceRequest_def spread_def
        no_updates_def Let_def)
  have stored: "getServiceRequest renamed_request ''r1''
     = Some (pump_record\<lparr>sr_id := ''r2'', sr_updatedAt := 1500\<rparr>)"
    by (simp add: store getServiceRequest_def)
  have by_field: "POST_attachments renamed_request ''r2'' (Some [''ref1'']) 2000
       = (renamed_request, Json 200 None)"
    by (simp add: store POST_attachments_def getAllServiceRequests_def map_values_def
        updateServiceRequest_def pump_record_def attachments_or_empty_def sort_eval Let_def)
  have sibling: "PATCH_service_request renamed_request ''r2''
         (no_updates\<lparr>upd_attachments := Some (Some [''ref1''])\<rparr>) 2000
       = (renamed_request, Error 404 ''Service request not found'')"
    by (simp add: store PATCH_service_request_def updateServiceRequest_def)
  have by_key: "POST_attachments renamed_request ''r1'' (Some [''ref1'']) 2000
       = (renamed_request, Error 404 ''Service request not found'')"
    by (simp add: store POST_attachments_def getAllServiceRequests_def map_values_def
        pump_record_def sort_eval)
  from stored by_field sibling by_key show ?thesis by simp
qed

end
